theory Spec2Isabelle
  imports Main "HOL-Library.AList" "HOL-Library.Sublist" "HOL-Library.Multiset"
begin

section \<open>JSON values and the JavaScript operations applied to them\<close>

text \<open>
  The scripts work on what \<^verbatim>\<open>JSON.parse\<close> returns and on what the MongoDB driver hands
  back. A parsed document is a value of \<open>json\<close>. Numbers are carried as integers: the
  only arithmetic facts the scripts use are \<^verbatim>\<open>=== 11000\<close> and truthiness, and a
  non-integral number behaves there like any integer other than \<open>0\<close> and \<open>11000\<close>.
  Where a number is printed (a number standing for a name), it is printed in full, as
  JavaScript prints the integers below \<open>10\<^sup>2\<^sup>1\<close>; larger numbers are outside the
  model. An object is the list of its own enumerable properties in the order
  \<^verbatim>\<open>for ... in\<close> enumerates them, each key once.
\<close>

datatype json =
    JNull
  | JBool bool
  | JNum int
  | JStr string
  | JArr "json list"
  | JObj "(string \<times> json) list"

text \<open>A JavaScript value is a JSON value or \<^verbatim>\<open>undefined\<close> (\<open>None\<close>).\<close>

type_synonym jsval = "json option"

text \<open>Every exception the scripts can meet, by where it is raised.\<close>

datatype error =
    TypeError      \<comment> \<open>property of \<^verbatim>\<open>null\<close>/\<^verbatim>\<open>undefined\<close>, not iterable, not a function\<close>
  | ReadError      \<comment> \<open>\<^verbatim>\<open>fs.readFile\<close> rejects\<close>
  | ParseError     \<comment> \<open>\<^verbatim>\<open>JSON.parse\<close> throws\<close>
  | WriteError     \<comment> \<open>\<^verbatim>\<open>fs.writeFile\<close> rejects\<close>
  | MkdirError     \<comment> \<open>\<^verbatim>\<open>fs.mkdir\<close> rejects\<close>
  | ClientError    \<comment> \<open>\<^verbatim>\<open>new MongoClient(uri)\<close> throws\<close>
  | ConnectError   \<comment> \<open>\<^verbatim>\<open>client.connect()\<close> rejects\<close>
  | CloseError     \<comment> \<open>\<^verbatim>\<open>client.close()\<close> rejects\<close>
  | OpenError      \<comment> \<open>\<^verbatim>\<open>db.collection(name)\<close> throws\<close>
  | QueryError     \<comment> \<open>\<^verbatim>\<open>aggregate(pipeline).toArray()\<close> rejects\<close>
  | LookupError    \<comment> \<open>\<^verbatim>\<open>findOne\<close> on \<^verbatim>\<open>meta.rels\<close> rejects\<close>

text \<open>\<^verbatim>\<open>!!v\<close>: the falsy values are \<^verbatim>\<open>undefined\<close>, \<^verbatim>\<open>null\<close>, \<^verbatim>\<open>false\<close>, \<^verbatim>\<open>0\<close> and \<^verbatim>\<open>""\<close>.\<close>

fun truthy :: "jsval \<Rightarrow> bool" where
  "truthy None = False"
| "truthy (Some JNull) = False"
| "truthy (Some (JBool b)) = b"
| "truthy (Some (JNum n)) = (n \<noteq> 0)"
| "truthy (Some (JStr s)) = (s \<noteq> [])"
| "truthy (Some (JArr xs)) = True"
| "truthy (Some (JObj kvs)) = True"

text \<open>
  \<^verbatim>\<open>v.k\<close> for the property names the scripts read (\<^verbatim>\<open>err\<close>, \<^verbatim>\<open>code\<close>,
  \<^verbatim>\<open>errorResponse\<close>, \<^verbatim>\<open>collection\<close>, \<^verbatim>\<open>fields\<close>, \<^verbatim>\<open>dest\<close>, \<^verbatim>\<open>source\<close>,
  \<^verbatim>\<open>cardinality\<close>): reading a property of \<^verbatim>\<open>null\<close> or \<^verbatim>\<open>undefined\<close> throws a
  TypeError; an object yields the property or \<^verbatim>\<open>undefined\<close>; a number, boolean, string
  or array has none of these properties.
\<close>

fun get_prop :: "jsval \<Rightarrow> string \<Rightarrow> error + jsval" where
  "get_prop None k = Inl TypeError"
| "get_prop (Some JNull) k = Inl TypeError"
| "get_prop (Some (JObj kvs)) k = Inr (map_of kvs k)"
| "get_prop (Some v) k = Inr None"

text \<open>Decimal numerals, as JavaScript writes array indices and integers.\<close>

fun decimal :: "nat \<Rightarrow> string" where
  "decimal n =
     (if n < 10 then [''0123456789'' ! n]
      else decimal (n div 10) @ [''0123456789'' ! (n mod 10)])"

declare decimal.simps [simp del]

text \<open>
  The own enumerable properties \<^verbatim>\<open>for (const k in v)\<close> visits under the
  \<^verbatim>\<open>hasOwnProperty\<close> filter, each with \<^verbatim>\<open>v[k]\<close>: the keys of an object, the indices
  of an array, the indices of a string (each holding one character); nothing for
  \<^verbatim>\<open>null\<close>, a number or a boolean.
\<close>

fun own_entries :: "json \<Rightarrow> (string \<times> json) list" where
  "own_entries (JObj kvs) = kvs"
| "own_entries (JArr xs) = zip (map decimal [0..<length xs]) xs"
| "own_entries (JStr s) = zip (map decimal [0..<length s]) (map (\<lambda>c. JStr [c]) s)"
| "own_entries v = []"

section \<open>The config generator (\<^verbatim>\<open>utils/index.js\<close>)\<close>

text \<open>
  Line 45: \<^verbatim>\<open>indexData.err.code || (indexData.err.errorResponse && indexData.err.errorResponse.code)\<close>.
  \<^verbatim>\<open>a || b\<close> is \<open>a\<close> when \<open>a\<close> is truthy and \<open>b\<close> otherwise; \<^verbatim>\<open>a && b\<close> is \<open>a\<close> when
  \<open>a\<close> is falsy and \<open>b\<close> otherwise.
\<close>

definition errCode :: "json \<Rightarrow> error + jsval" where
  "errCode indexData =
     (case get_prop (Some indexData) ''err'' of
        Inl e \<Rightarrow> Inl e
      | Inr err \<Rightarrow>
          (case get_prop err ''code'' of
             Inl e \<Rightarrow> Inl e
           | Inr code \<Rightarrow>
               if truthy code then Inr code
               else (case get_prop err ''errorResponse'' of
                       Inl e \<Rightarrow> Inl e
                     | Inr errorResponse \<Rightarrow>
                         if truthy errorResponse then get_prop errorResponse ''code''
                         else Inr errorResponse)))"

text \<open>
  Line 48: \<^verbatim>\<open>indexName.replace(/_1$/, "")\<close>. The regular expression is tried at each
  position from the left; it matches where the rest of the string is exactly \<^verbatim>\<open>_1\<close>, and
  the match is replaced by the empty string.
\<close>

fun fieldName :: "string \<Rightarrow> string" where
  "fieldName [] = []"
| "fieldName (c # cs) = (if c # cs = ''_1'' then [] else c # fieldName cs)"

text \<open>Lines 39--51: the loop over the index entries of one collection.\<close>

fun collectFields :: "(string \<times> json) list \<Rightarrow> string list \<Rightarrow> error + string list" where
  "collectFields [] fields = Inr fields"
| "collectFields ((indexName, indexData) # rest) fields =
     (case errCode indexData of
        Inl e \<Rightarrow> Inl e
      | Inr code \<Rightarrow>
          collectFields rest
            (if code = Some (JNum 11000) then fields @ [fieldName indexName] else fields))"

text \<open>Lines 32--60: the loop over the collections of the report.\<close>

text \<open>The object literal \<^verbatim>\<open>{ collection: collectionName, fields: fields }\<close> of lines 55--58.\<close>

definition configEntry :: "string \<Rightarrow> string list \<Rightarrow> json" where
  "configEntry collectionName fields =
     JObj [(''collection'', JStr collectionName), (''fields'', JArr (map JStr fields))]"

fun collectConfigs :: "(string \<times> json) list \<Rightarrow> json list \<Rightarrow> error + json list" where
  "collectConfigs [] newConfigs = Inr newConfigs"
| "collectConfigs ((collectionName, indexes) # rest) newConfigs =
     (case collectFields (own_entries indexes) [] of
        Inl e \<Rightarrow> Inl e
      | Inr fields \<Rightarrow>
          collectConfigs rest
            (if fields \<noteq> [] then newConfigs @ [configEntry collectionName fields]
             else newConfigs))"

definition newConfigs :: "json \<Rightarrow> error + json list" where
  "newConfigs data = collectConfigs (own_entries data) []"

section \<open>Files and the log\<close>

text \<open>
  A file holds a text that \<^verbatim>\<open>JSON.parse\<close> accepts (\<open>Doc v\<close>, \<open>v\<close> the parsed value) or
  one it rejects (\<open>Garbage\<close>); \<^verbatim>\<open>JSON.stringify\<close> followed by \<^verbatim>\<open>writeFile\<close> stores
  \<open>Doc v\<close>. Paths are written relative to the working directory, which both the
  \<^verbatim>\<open>fs\<close> calls and \<^verbatim>\<open>path.resolve\<close> resolve against. Which writes and which
  \<^verbatim>\<open>mkdir\<close> calls the operating system rejects is a parameter of the file system.
\<close>

datatype content = Garbage | Doc json

record filesystem =
  files :: "string \<rightharpoonup> content"
  write_fails :: "string \<Rightarrow> bool"
  mkdir_fails :: "string \<Rightarrow> bool"

text \<open>
  \<^verbatim>\<open>path.resolve(a, b, ...)\<close>: the segments are joined with \<^verbatim>\<open>/\<close> below the working
  directory, from the right, until a segment that starts with \<^verbatim>\<open>/\<close> is met: such a
  segment is absolute and the segments before it do not count; an empty segment is
  passed over. A path that starts with \<^verbatim>\<open>/\<close> is absolute, any other is relative to
  the working directory. The segments \<^verbatim>\<open>.\<close> and \<^verbatim>\<open>..\<close> inside a name are kept as
  written (the fixed names of the scripts contain none).
\<close>

fun is_absolute :: "string \<Rightarrow> bool" where
  "is_absolute [] = False"
| "is_absolute (c # cs) = (c = CHR ''/'')"

fun path_resolve :: "string list \<Rightarrow> string" where
  "path_resolve [] = []"
| "path_resolve (s # ss) =
     (let r = path_resolve ss
      in if is_absolute r then r
         else if s = [] then r
         else if r = [] then s
         else s @ CHR ''/'' # r)"

text \<open>\<^verbatim>\<open>JSON.parse(await fs.readFile(p, "utf8"))\<close>.\<close>

definition readJson :: "filesystem \<Rightarrow> string \<Rightarrow> error + json" where
  "readJson fs p =
     (case files fs p of
        None \<Rightarrow> Inl ReadError
      | Some Garbage \<Rightarrow> Inl ParseError
      | Some (Doc v) \<Rightarrow> Inr v)"

text \<open>\<^verbatim>\<open>await fs.writeFile(p, JSON.stringify(v, null, 2), "utf8")\<close>.\<close>

definition writeJson :: "filesystem \<Rightarrow> string \<Rightarrow> json \<Rightarrow> error + filesystem" where
  "writeJson fs p v =
     (if write_fails fs p then Inl WriteError
      else Inr (fs\<lparr>files := (files fs)(p \<mapsto> Doc v)\<rparr>))"

text \<open>One constructor for each \<^verbatim>\<open>console.log\<close> and \<^verbatim>\<open>console.error\<close> call of the scripts.\<close>

datatype log_entry =
    ConfigWritten string            \<comment> \<open>generator: the new configuration file was written\<close>
  | GenerationFailed error          \<comment> \<open>generator: the \<^verbatim>\<open>catch\<close> of \<^verbatim>\<open>generateConfigs\<close>\<close>
  | LoadFailed string error         \<comment> \<open>the configuration file could not be read\<close>
  | BadConfig json                  \<comment> \<open>scanner: incorrect configuration\<close>
  | Processing string               \<comment> \<open>scanner: processing collection ...\<close>
  | Checking string                 \<comment> \<open>scanner: checking duplicates for field ...\<close>
  | DuplicatesFound string string   \<comment> \<open>scanner: duplicates found for field ... in collection ...\<close>
  | NoDuplicates string string      \<comment> \<open>scanner: no duplicates for field ... in collection ...\<close>
  | RelsLookup string               \<comment> \<open>enricher: the name contains "rels", querying \<^verbatim>\<open>meta.rels\<close>\<close>
  | MetaNotFound string             \<comment> \<open>enricher: no document in \<^verbatim>\<open>meta.rels\<close>\<close>
  | QueryFailed error               \<comment> \<open>scanner: the \<^verbatim>\<open>catch\<close> of \<^verbatim>\<open>findDuplicates\<close>\<close>
  | SummaryHeading
  | Summary json                    \<comment> \<open>the final results, as \<^verbatim>\<open>JSON.stringify\<close> prints them\<close>
  | MkdirFailed string error
  | ReportWritten string string     \<comment> \<open>collection, file name\<close>
  | ReportWriteFailed string error
  | Uncaught error                  \<comment> \<open>an exception outside every \<^verbatim>\<open>try\<close>: the runtime prints it\<close>

text \<open>
  Lines 21--68 of \<^verbatim>\<open>utils/index.js\<close>. Everything runs inside one \<^verbatim>\<open>try\<close>; the
  \<^verbatim>\<open>catch\<close> logs the exception and the function returns normally.
\<close>

definition inputFile :: string where
  "inputFile = path_resolve [''input'', ''updateIndex.failure.json'']"

definition outputFile :: string where
  "outputFile = path_resolve [''output'', ''duplicates_json'', ''duplicateKeys.json'']"

definition generateConfigs :: "filesystem \<Rightarrow> filesystem \<times> log_entry list" where
  "generateConfigs fs =
     (case readJson fs inputFile of
        Inl e \<Rightarrow> (fs, [GenerationFailed e])
      | Inr data \<Rightarrow>
          (case newConfigs data of
             Inl e \<Rightarrow> (fs, [GenerationFailed e])
           | Inr configs \<Rightarrow>
               (case writeJson fs outputFile (JArr configs) of
                  Inl e \<Rightarrow> (fs, [GenerationFailed e])
                | Inr fs' \<Rightarrow> (fs', [ConfigWritten outputFile]))))"

section \<open>The document store\<close>

text \<open>
  String conversion, as a template literal \<^verbatim>\<open>`${v}`\<close> and a property key perform it.
  An array joins its elements with commas (\<^verbatim>\<open>null\<close> as the empty string); a parsed
  object has no callable \<^verbatim>\<open>toString\<close> of its own, so it prints as
  \<^verbatim>\<open>[object Object]\<close> unless it carries an own \<^verbatim>\<open>toString\<close> property, in which case
  the conversion throws a TypeError.
\<close>

fun join_strings :: "(error + string) list \<Rightarrow> error + string" where
  "join_strings [] = Inr []"
| "join_strings [x] = x"
| "join_strings (x # y # ys) =
     (case x of
        Inl e \<Rightarrow> Inl e
      | Inr s \<Rightarrow> (case join_strings (y # ys) of
                   Inl e \<Rightarrow> Inl e
                 | Inr t \<Rightarrow> Inr (s @ CHR '','' # t)))"

fun js_string :: "json \<Rightarrow> error + string" where
  "js_string JNull = Inr ''null''"
| "js_string (JBool b) = Inr (if b then ''true'' else ''false'')"
| "js_string (JNum n) = Inr (if n < 0 then CHR ''-'' # decimal (nat (- n)) else decimal (nat n))"
| "js_string (JStr s) = Inr s"
| "js_string (JArr xs) =
     join_strings (map (\<lambda>x. if x = JNull then Inr [] else js_string x) xs)"
| "js_string (JObj kvs) =
     (if ''toString'' \<in> fst ` set kvs then Inl TypeError else Inr ''[object Object]'')"

text \<open>
  The database is an external collaborator; the scripts see it through these calls.
  \<^item> \<^verbatim>\<open>new MongoClient(uri)\<close> may throw (\<open>client_fails\<close>) and \<^verbatim>\<open>client.close()\<close>
    may reject (\<open>close_fails\<close>); both stand outside the \<^verbatim>\<open>try\<close> block's protection.
  \<^item> \<^verbatim>\<open>client.connect()\<close> may reject (\<open>connect_fails\<close>).
  \<^item> \<^verbatim>\<open>db.collection(name)\<close> may throw (\<open>open_fails\<close>).
  \<^item> \<^verbatim>\<open>collection.aggregate(pipeline).toArray()\<close> may reject (\<open>aggregate_fails\<close>, by
    collection and grouping expression); otherwise the server runs the pipeline on
    the collection's \<open>documents\<close>, where \<open>field_value\<close> evaluates the grouping
    expression \<^verbatim>\<open>"$<field>"\<close> on a document.
  \<^item> \<^verbatim>\<open>db.collection("meta.rels").findOne({ collectionType: name })\<close> rejects or returns
    a document or \<^verbatim>\<open>null\<close> (\<open>findOne_meta\<close>).
\<close>

record store =
  client_fails :: bool
  close_fails :: bool
  connect_fails :: bool
  open_fails :: "json \<Rightarrow> bool"
  documents :: "json \<Rightarrow> json list"
  field_value :: "string \<Rightarrow> json \<Rightarrow> json"
  aggregate_fails :: "json \<Rightarrow> string \<Rightarrow> bool"
  findOne_meta :: "json \<Rightarrow> error + jsval"

text \<open>
  A document of the pipeline's output:
  \<^verbatim>\<open>{ _id: <the grouped value>, count: <n>, docs: [{ _id: ... }, ...] }\<close>.
\<close>

record group =
  group_id :: json
  count :: nat
  docs :: "json list"

text \<open>\<^verbatim>\<open>{ _id: "$_id" }\<close> (first driver: \<^verbatim>\<open>{ _id: "$$ROOT._id" }\<close>) on a document.\<close>

definition doc_ref :: "json \<Rightarrow> json" where
  "doc_ref d =
     (case get_prop (Some d) ''_id'' of
        Inr (Some i) \<Rightarrow> JObj [(''_id'', i)]
      | _ \<Rightarrow> JObj [])"

text \<open>
  The three stages of the pipeline (second driver lines 70--80, first driver lines
  57--67), with the meaning MongoDB gives them. \<^verbatim>\<open>$group\<close> feeds every document to
  the accumulators of the group of its key: \<^verbatim>\<open>count: { $sum: 1 }\<close> adds one,
  \<^verbatim>\<open>docs: { $push: ... }\<close> appends the reference. \<^verbatim>\<open>$match: { count: { $gt: 1 } }\<close>
  keeps the groups whose count exceeds one. \<^verbatim>\<open>$sort: { count: -1 }\<close> orders by count,
  largest first; the order among equal counts is the server's choice, here the order
  in which the groups were met.
\<close>

fun push_doc :: "json \<Rightarrow> json \<Rightarrow> group list \<Rightarrow> group list" where
  "push_doc k d [] = [\<lparr>group_id = k, count = 1, docs = [doc_ref d]\<rparr>]"
| "push_doc k d (g # gs) =
     (if group_id g = k then g\<lparr>count := count g + 1, docs := docs g @ [doc_ref d]\<rparr> # gs
      else g # push_doc k d gs)"

definition group_stage :: "(json \<Rightarrow> json) \<Rightarrow> json list \<Rightarrow> group list" where
  "group_stage key_of ds = foldl (\<lambda>gs d. push_doc (key_of d) d gs) [] ds"

definition match_stage :: "group list \<Rightarrow> group list" where
  "match_stage gs = filter (\<lambda>g. count g > 1) gs"

definition sort_stage :: "group list \<Rightarrow> group list" where
  "sort_stage gs = sort_key (\<lambda>g. - int (count g)) gs"

definition pipeline :: "(json \<Rightarrow> json) \<Rightarrow> json list \<Rightarrow> group list" where
  "pipeline key_of ds = sort_stage (match_stage (group_stage key_of ds))"

text \<open>\<^verbatim>\<open>await collection.aggregate(pipeline).toArray()\<close> for the field named \<open>field\<close>.\<close>

definition aggregate :: "store \<Rightarrow> json \<Rightarrow> string \<Rightarrow> error + group list" where
  "aggregate st collectionName field =
     (if aggregate_fails st collectionName (CHR ''$'' # field) then Inl QueryError
      else Inr (pipeline (field_value st (CHR ''$'' # field)) (documents st collectionName)))"

text \<open>The groups the \<^verbatim>\<open>$match\<close> stage retains for a field of a collection, in the order
  \<^verbatim>\<open>$group\<close> produced them; the answer to the query is these, sorted.\<close>

definition retained :: "store \<Rightarrow> json \<Rightarrow> string \<Rightarrow> group list" where
  "retained st collectionName fname =
     match_stage (group_stage (field_value st (CHR ''$'' # fname)) (documents st collectionName))"

section \<open>The duplicate scanner (\<^verbatim>\<open>findDuplicates\<close> of both drivers)\<close>

record field_result =
  field :: json
  duplicates :: "group list"

record collection_result =
  collection :: json
  results :: "field_result list"
  destCardinality :: jsval
  sourceCardinality :: jsval

text \<open>
  A step of a loop yields the lines it logged and either the exception it threw or its
  value. The loops below sit inside the single \<^verbatim>\<open>try\<close> of \<^verbatim>\<open>findDuplicates\<close>: nothing
  in them catches, so an exception leaves every enclosing loop.
\<close>

type_synonym 'a step = "log_entry list \<times> (error + 'a)"

text \<open>
  The loop over the fields of one collection (second driver lines 67--90, first driver
  lines 54--77; the two are the same). \<open>cname\<close> is the collection name as the log
  prints it.
\<close>

fun scanFields ::
  "store \<Rightarrow> json \<Rightarrow> string \<Rightarrow> json list \<Rightarrow> field_result list \<Rightarrow> log_entry list
     \<Rightarrow> field_result list step" where
  "scanFields st collectionName cname [] collectionResults lg = (lg, Inr collectionResults)"
| "scanFields st collectionName cname (f # flds) collectionResults lg =
     (case js_string f of
        Inl e \<Rightarrow> (lg, Inl e)
      | Inr fname \<Rightarrow>
          (case aggregate st collectionName fname of
             Inl e \<Rightarrow> (lg @ [Checking fname], Inl e)
           | Inr dups \<Rightarrow>
               if dups \<noteq> [] then
                 scanFields st collectionName cname flds
                   (collectionResults @ [\<lparr>field = f, duplicates = dups\<rparr>])
                   (lg @ [Checking fname, DuplicatesFound fname cname])
               else
                 scanFields st collectionName cname flds collectionResults
                   (lg @ [Checking fname, NoDuplicates fname cname])))"

fun isArray :: "jsval \<Rightarrow> bool" where
  "isArray (Some (JArr xs)) = True"
| "isArray v = False"

text \<open>
  One iteration of the loop over the configurations, up to the end of the field loop
  (second driver lines 56--90, first driver lines 43--77; the two are the same).
  Destructuring \<^verbatim>\<open>null\<close> throws; the guard
  \<^verbatim>\<open>!collectionName || !Array.isArray(fields)\<close> logs and continues (\<open>None\<close>); the
  collection is announced, opened and its fields scanned.
\<close>

definition scanConfig ::
  "store \<Rightarrow> json \<Rightarrow> (json \<times> string \<times> field_result list) option step" where
  "scanConfig st config =
     (case get_prop (Some config) ''collection'' of
        Inl e \<Rightarrow> ([], Inl e)
      | Inr collectionName \<Rightarrow>
          (case get_prop (Some config) ''fields'' of
             Inl e \<Rightarrow> ([], Inl e)
           | Inr flds \<Rightarrow>
               if \<not> truthy collectionName \<or> \<not> isArray flds then
                 ([BadConfig config], Inr None)
               else
                 (case (collectionName, flds) of
                    (Some c, Some (JArr fs)) \<Rightarrow>
                      (case js_string c of
                         Inl e \<Rightarrow> ([], Inl e)
                       | Inr cname \<Rightarrow>
                           if open_fails st c then ([Processing cname], Inl OpenError)
                           else
                             (case scanFields st c cname fs [] [Processing cname] of
                                (lg, Inl e) \<Rightarrow> (lg, Inl e)
                              | (lg, Inr collectionResults) \<Rightarrow>
                                  (lg, Inr (Some (c, cname, collectionResults)))))
                  | _ \<Rightarrow> ([BadConfig config], Inr None))))"

text \<open>\<^verbatim>\<open>for (const config of configs)\<close>: an array yields its elements and a string its
  characters; anything else is not iterable.\<close>

fun iterate :: "json \<Rightarrow> error + json list" where
  "iterate (JArr xs) = Inr xs"
| "iterate (JStr s) = Inr (map (\<lambda>c. JStr [c]) s)"
| "iterate v = Inl TypeError"

subsection \<open>Second driver: enrichment and the result list\<close>

fun str_includes :: "string \<Rightarrow> string \<Rightarrow> bool" where
  "str_includes [] pat = (pat = [])"
| "str_includes (c # cs) pat = (prefix pat (c # cs) \<or> str_includes cs pat)"

text \<open>
  \<^verbatim>\<open>collectionName.includes("rels")\<close> on a truthy value: the substring test of a
  string, the membership test of an array; a number, boolean or object has no such
  method.
\<close>

fun includes_rels :: "json \<Rightarrow> error + bool" where
  "includes_rels (JStr s) = Inr (str_includes s ''rels'')"
| "includes_rels (JArr xs) = Inr (JStr ''rels'' \<in> set xs)"
| "includes_rels v = Inl TypeError"

text \<open>\<^verbatim>\<open>metaRelationDoc.dest && metaRelationDoc.dest.cardinality\<close>, and the same for
  \<^verbatim>\<open>source\<close>.\<close>

definition side_cardinality :: "jsval \<Rightarrow> string \<Rightarrow> error + jsval" where
  "side_cardinality metaRelationDoc side =
     (case get_prop metaRelationDoc side of
        Inl e \<Rightarrow> Inl e
      | Inr s \<Rightarrow> if truthy s then get_prop s ''cardinality'' else Inr s)"

text \<open>
  Second driver lines 94--114, for a collection with at least one field result. A
  cardinality that is absent or \<^verbatim>\<open>undefined\<close> is \<open>None\<close>: \<^verbatim>\<open>JSON.stringify\<close> writes
  neither.
\<close>

definition enrich :: "store \<Rightarrow> json \<Rightarrow> string \<Rightarrow> field_result list \<Rightarrow> collection_result step" where
  "enrich st collectionName cname collectionResults =
     (let resultObj = \<lparr>collection = collectionName, results = collectionResults,
                       destCardinality = None, sourceCardinality = None\<rparr>
      in case includes_rels collectionName of
           Inl e \<Rightarrow> ([], Inl e)
         | Inr False \<Rightarrow> ([], Inr resultObj)
         | Inr True \<Rightarrow>
             (case findOne_meta st collectionName of
                Inl e \<Rightarrow> ([RelsLookup cname], Inl e)
              | Inr metaRelationDoc \<Rightarrow>
                  if truthy metaRelationDoc then
                    (case side_cardinality metaRelationDoc ''dest'' of
                       Inl e \<Rightarrow> ([RelsLookup cname], Inl e)
                     | Inr d \<Rightarrow>
                         (case side_cardinality metaRelationDoc ''source'' of
                            Inl e \<Rightarrow> ([RelsLookup cname], Inl e)
                          | Inr s \<Rightarrow>
                              ([RelsLookup cname],
                               Inr (resultObj\<lparr>destCardinality := d, sourceCardinality := s\<rparr>))))
                  else ([RelsLookup cname, MetaNotFound cname], Inr resultObj)))"

text \<open>One iteration of the second driver's loop (lines 56--117): the results to push, if any.\<close>

definition processConfig_p1 :: "store \<Rightarrow> json \<Rightarrow> collection_result option step" where
  "processConfig_p1 st config =
     (case scanConfig st config of
        (lg, Inl e) \<Rightarrow> (lg, Inl e)
      | (lg, Inr None) \<Rightarrow> (lg, Inr None)
      | (lg, Inr (Some (c, cname, collectionResults))) \<Rightarrow>
          if collectionResults \<noteq> [] then
            (case enrich st c cname collectionResults of
               (lg', Inl e) \<Rightarrow> (lg @ lg', Inl e)
             | (lg', Inr resultObj) \<Rightarrow> (lg @ lg', Inr (Some resultObj)))
          else (lg, Inr None))"

text \<open>The loop of lines 55--118: it ends with the exception that left it, if any.\<close>

fun scanLoop_p1 ::
  "store \<Rightarrow> json list \<Rightarrow> collection_result list \<Rightarrow> log_entry list
     \<Rightarrow> collection_result list \<times> log_entry list \<times> error option" where
  "scanLoop_p1 st [] finalResults lg = (finalResults, lg, None)"
| "scanLoop_p1 st (config # rest) finalResults lg =
     (case processConfig_p1 st config of
        (lg', Inl e) \<Rightarrow> (finalResults, lg @ lg', Some e)
      | (lg', Inr None) \<Rightarrow> scanLoop_p1 st rest finalResults (lg @ lg')
      | (lg', Inr (Some resultObj)) \<Rightarrow>
          scanLoop_p1 st rest (finalResults @ [resultObj]) (lg @ lg'))"

text \<open>
  \<^verbatim>\<open>findDuplicates\<close> of the second driver, from its \<^verbatim>\<open>try\<close> to its \<^verbatim>\<open>return\<close> (lines
  50--125): the \<^verbatim>\<open>catch\<close> logs the exception, and the function returns what
  \<open>finalResults\<close> holds by then.
\<close>

definition findDuplicates_p1 :: "store \<Rightarrow> json \<Rightarrow> collection_result list \<times> log_entry list" where
  "findDuplicates_p1 st configs =
     (if connect_fails st then ([], [QueryFailed ConnectError])
      else case iterate configs of
             Inl e \<Rightarrow> ([], [QueryFailed e])
           | Inr cs \<Rightarrow>
               (case scanLoop_p1 st cs [] [] of
                  (finalResults, lg, None) \<Rightarrow> (finalResults, lg)
                | (finalResults, lg, Some e) \<Rightarrow> (finalResults, lg @ [QueryFailed e])))"

text \<open>
  The call \<^verbatim>\<open>await findDuplicates(configs, { uri, dbName })\<close> as the script body sees it
  (line 147). \<^verbatim>\<open>new MongoClient(uri)\<close> (line 47) stands before the \<^verbatim>\<open>try\<close>, and
  \<^verbatim>\<open>client.close()\<close> (line 122) in its \<^verbatim>\<open>finally\<close>: an exception of either leaves the
  function, the second after everything the scan has logged.
\<close>

definition call_findDuplicates_p1 :: "store \<Rightarrow> json \<Rightarrow> collection_result list step" where
  "call_findDuplicates_p1 st configs =
     (if client_fails st then ([], Inl ClientError)
      else case findDuplicates_p1 st configs of
             (finalResults, lg) \<Rightarrow>
               if close_fails st then (lg, Inl CloseError) else (lg, Inr finalResults))"

subsection \<open>First driver: the results keyed by collection name\<close>

text \<open>
  \<^verbatim>\<open>obj[k] = v\<close> on a plain object, kept as the list of its properties in the order
  \<^verbatim>\<open>Object.entries\<close> enumerates them: the array indices (the decimal numerals of the
  numbers below \<open>2\<^sup>3\<^sup>2 - 1\<close>) first, in ascending order, then the other keys in the
  order of their creation. A key already present keeps its place and takes the new
  value.
\<close>

definition array_index :: "string \<Rightarrow> nat option" where
  "array_index s =
     (if s \<noteq> [] \<and> list_all (\<lambda>c. c \<in> set ''0123456789'') s then
        (let n = foldl (\<lambda>a c. 10 * a + (of_char c - 48)) 0 s
         in if decimal n = s \<and> n < 4294967295 then Some n else None)
      else None)"

fun insert_index :: "nat \<Rightarrow> string \<Rightarrow> 'v \<Rightarrow> (string \<times> 'v) list \<Rightarrow> (string \<times> 'v) list" where
  "insert_index n k v [] = [(k, v)]"
| "insert_index n k v ((k', v') # rest) =
     (case array_index k' of
        Some m \<Rightarrow> if m < n then (k', v') # insert_index n k v rest
                  else (k, v) # (k', v') # rest
      | None \<Rightarrow> (k, v) # (k', v') # rest)"

definition obj_set :: "string \<Rightarrow> 'v \<Rightarrow> (string \<times> 'v) list \<Rightarrow> (string \<times> 'v) list" where
  "obj_set k v kvs =
     (if k \<in> fst ` set kvs then AList.update k v kvs
      else case array_index k of
             Some n \<Rightarrow> insert_index n k v kvs
           | None \<Rightarrow> kvs @ [(k, v)])"

text \<open>
  \<^verbatim>\<open>resultsByCollection[collectionName] = collectionResults\<close> (line 80): the key is the
  name as a string. Assigning an array to the key \<^verbatim>\<open>__proto__\<close> of a plain object sets
  its prototype and adds no property.
\<close>

fun scanLoop_p0 ::
  "store \<Rightarrow> json list \<Rightarrow> (string \<times> field_result list) list \<Rightarrow> log_entry list
     \<Rightarrow> (string \<times> field_result list) list \<times> log_entry list \<times> error option" where
  "scanLoop_p0 st [] resultsByCollection lg = (resultsByCollection, lg, None)"
| "scanLoop_p0 st (config # rest) resultsByCollection lg =
     (case scanConfig st config of
        (lg', Inl e) \<Rightarrow> (resultsByCollection, lg @ lg', Some e)
      | (lg', Inr None) \<Rightarrow> scanLoop_p0 st rest resultsByCollection (lg @ lg')
      | (lg', Inr (Some (c, cname, collectionResults))) \<Rightarrow>
          scanLoop_p0 st rest
            (if collectionResults \<noteq> [] \<and> cname \<noteq> ''__proto__'' then
               obj_set cname collectionResults resultsByCollection
             else resultsByCollection)
            (lg @ lg'))"

definition findDuplicates_p0 ::
  "store \<Rightarrow> json \<Rightarrow> (string \<times> field_result list) list \<times> log_entry list" where
  "findDuplicates_p0 st configs =
     (if connect_fails st then ([], [QueryFailed ConnectError])
      else case iterate configs of
             Inl e \<Rightarrow> ([], [QueryFailed e])
           | Inr cs \<Rightarrow>
               (case scanLoop_p0 st cs [] [] of
                  (resultsByCollection, lg, None) \<Rightarrow> (resultsByCollection, lg)
                | (resultsByCollection, lg, Some e) \<Rightarrow>
                    (resultsByCollection, lg @ [QueryFailed e])))"

text \<open>The call of line 104; \<^verbatim>\<open>new MongoClient(uri)\<close> (line 34) and \<^verbatim>\<open>client.close()\<close>
  (line 86) as in the second driver.\<close>

definition call_findDuplicates_p0 ::
  "store \<Rightarrow> json \<Rightarrow> (string \<times> field_result list) list step" where
  "call_findDuplicates_p0 st configs =
     (if client_fails st then ([], Inl ClientError)
      else case findDuplicates_p0 st configs of
             (resultsByCollection, lg) \<Rightarrow>
               if close_fails st then (lg, Inl CloseError) else (lg, Inr resultsByCollection))"

section \<open>The two driver scripts\<close>

text \<open>What \<^verbatim>\<open>JSON.stringify\<close> writes for the results; a property whose value is
  \<^verbatim>\<open>undefined\<close> is left out.\<close>

definition json_of_group :: "group \<Rightarrow> json" where
  "json_of_group g =
     JObj [(''_id'', group_id g), (''count'', JNum (int (count g))), (''docs'', JArr (docs g))]"

definition json_of_field_result :: "field_result \<Rightarrow> json" where
  "json_of_field_result r =
     JObj [(''field'', field r), (''duplicates'', JArr (map json_of_group (duplicates r)))]"

definition optional_prop :: "string \<Rightarrow> jsval \<Rightarrow> (string \<times> json) list" where
  "optional_prop k v = (case v of None \<Rightarrow> [] | Some x \<Rightarrow> [(k, x)])"

definition json_of_result :: "collection_result \<Rightarrow> json" where
  "json_of_result r =
     JObj ([(''collection'', collection r),
            (''results'', JArr (map json_of_field_result (results r)))]
           @ optional_prop ''destCardinality'' (destCardinality r)
           @ optional_prop ''sourceCardinality'' (sourceCardinality r))"

text \<open>
  A run ends with the exit status of the process (\<open>1\<close> after \<^verbatim>\<open>process.exit(1)\<close> or an
  exception nothing catches, \<open>0\<close> when the script runs to its end), the files and
  the log. The connection parameters come from the environment and reach the model as
  the \<open>store\<close>. The script body catches nothing around the call of
  \<^verbatim>\<open>findDuplicates\<close>, so an exception that leaves the function ends the run.
\<close>

type_synonym run = "nat \<times> filesystem \<times> log_entry list"

subsection \<open>Second driver\<close>

text \<open>\<^verbatim>\<open>loadConfigs(filePath)\<close>, lines 16--23: any failure is rethrown.\<close>

definition loadConfigs_p1 :: "filesystem \<Rightarrow> string \<Rightarrow> error + json" where
  "loadConfigs_p1 fs filePath = readJson fs filePath"

definition configFile_p1 :: string where
  "configFile_p1 = path_resolve [''output'', ''duplicates_json'', ''duplicateKeys.json'']"

definition outputDir_p1 :: string where
  "outputDir_p1 = path_resolve [''output'', ''duplicates_json'']"

text \<open>Lines 161--170: a failed write is logged and the loop goes on. The file name is
  built outside the \<^verbatim>\<open>try\<close>.\<close>

fun writeReports_p1 ::
  "filesystem \<Rightarrow> collection_result list \<Rightarrow> log_entry list
     \<Rightarrow> filesystem \<times> log_entry list \<times> error option" where
  "writeReports_p1 fs [] lg = (fs, lg, None)"
| "writeReports_p1 fs (resultObj # rest) lg =
     (case js_string (collection resultObj) of
        Inl e \<Rightarrow> (fs, lg, Some e)
      | Inr cname \<Rightarrow>
          (let filename = path_resolve [outputDir_p1, cname @ ''_duplicates.json'']
           in case writeJson fs filename (json_of_result resultObj) of
                Inl e \<Rightarrow> writeReports_p1 fs rest (lg @ [ReportWriteFailed cname e])
              | Inr fs' \<Rightarrow> writeReports_p1 fs' rest (lg @ [ReportWritten cname filename])))"

text \<open>The script body, lines 128--171.\<close>

definition main_p1 :: "store \<Rightarrow> filesystem \<Rightarrow> run" where
  "main_p1 st fs =
     (case generateConfigs fs of
        (fs1, lg1) \<Rightarrow>
          (case loadConfigs_p1 fs1 configFile_p1 of
             Inl e \<Rightarrow> (1, fs1, lg1 @ [LoadFailed configFile_p1 e])
           | Inr configs \<Rightarrow>
               (case call_findDuplicates_p1 st configs of
                  (lg2, Inl e) \<Rightarrow> (1, fs1, lg1 @ lg2 @ [Uncaught e])
                | (lg2, Inr duplicatesResults) \<Rightarrow>
                    (let lg = lg1 @ lg2
                           @ [SummaryHeading, Summary (JArr (map json_of_result duplicatesResults))]
                     in if mkdir_fails fs1 outputDir_p1 then
                          (1, fs1, lg @ [MkdirFailed outputDir_p1 MkdirError])
                        else
                          (case writeReports_p1 fs1 duplicatesResults lg of
                             (fs2, lg3, None) \<Rightarrow> (0, fs2, lg3)
                           | (fs2, lg3, Some e) \<Rightarrow> (1, fs2, lg3 @ [Uncaught e]))))))"

subsection \<open>First driver\<close>

text \<open>\<^verbatim>\<open>loadConfigs()\<close>, lines 14--22, called without an argument: the default path.\<close>

definition configFile_p0 :: string where
  "configFile_p0 = ''output/duplicateKeys.json''"

definition loadConfigs_p0 :: "filesystem \<Rightarrow> error + json" where
  "loadConfigs_p0 fs = readJson fs configFile_p0"

definition outputDir_p0 :: string where
  "outputDir_p0 = ''output/duplicaties_json''"

definition reportName_p0 :: "string \<Rightarrow> string" where
  "reportName_p0 collectionName = outputDir_p0 @ ''/'' @ collectionName @ ''_duplicates.json''"

text \<open>Lines 118--127.\<close>

fun writeReports_p0 ::
  "filesystem \<Rightarrow> (string \<times> field_result list) list \<Rightarrow> log_entry list
     \<Rightarrow> filesystem \<times> log_entry list" where
  "writeReports_p0 fs [] lg = (fs, lg)"
| "writeReports_p0 fs ((collectionName, rs) # rest) lg =
     (let filename = reportName_p0 collectionName;
          fileContent = JObj [(''collection'', JStr collectionName),
                              (''results'', JArr (map json_of_field_result rs))]
      in case writeJson fs filename fileContent of
           Inl e \<Rightarrow> writeReports_p0 fs rest (lg @ [ReportWriteFailed collectionName e])
         | Inr fs' \<Rightarrow> writeReports_p0 fs' rest (lg @ [ReportWritten collectionName filename]))"

text \<open>The script body, lines 92--128.\<close>

definition main_p0 :: "store \<Rightarrow> filesystem \<Rightarrow> run" where
  "main_p0 st fs =
     (case generateConfigs fs of
        (fs1, lg1) \<Rightarrow>
          (case loadConfigs_p0 fs1 of
             Inl e \<Rightarrow> (1, fs1, lg1 @ [LoadFailed configFile_p0 e])
           | Inr configs \<Rightarrow>
               (case call_findDuplicates_p0 st configs of
                  (lg2, Inl e) \<Rightarrow> (1, fs1, lg1 @ lg2 @ [Uncaught e])
                | (lg2, Inr duplicatesResults) \<Rightarrow>
                    (let lg = lg1 @ lg2
                           @ [SummaryHeading,
                              Summary (JObj (map (\<lambda>(k, rs). (k, JArr (map json_of_field_result rs)))
                                               duplicatesResults))]
                     in if mkdir_fails fs1 outputDir_p0 then
                          (1, fs1, lg @ [MkdirFailed outputDir_p0 MkdirError])
                        else
                          (case writeReports_p0 fs1 duplicatesResults lg of
                             (fs2, lg3) \<Rightarrow> (0, fs2, lg3))))))"

section \<open>Concrete inputs\<close>

subsection \<open>Failure reports\<close>

text \<open>Scenario A of the specification:
  \<^verbatim>\<open>{"users": {"email_1": {"err": {"code": 11000}}}}\<close>.\<close>

definition scenario_A :: json where
  "scenario_A =
     JObj [(''users'', JObj [(''email_1'', JObj [(''err'', JObj [(''code'', JNum 11000)])])])]"

text \<open>Four index entries of one collection: the code in the primary place, the code
  only in the envelope (Scenario B), another code (Scenario C), and no code at all.\<close>

definition sample_indexes :: "(string \<times> json) list" where
  "sample_indexes =
     [(''email_1'', JObj [(''err'', JObj [(''code'', JNum 11000)])]),
      (''name_1'', JObj [(''err'', JObj [(''errorResponse'', JObj [(''code'', JNum 11000)])])]),
      (''age_1'', JObj [(''err'', JObj [(''code'', JNum 85)])]),
      (''city_1'', JObj [(''err'', JObj [])])]"

text \<open>An error record whose primary code is present and is \<open>0\<close>, with \<open>11000\<close> in the
  envelope: \<^verbatim>\<open>{"err": {"code": 0, "errorResponse": {"code": 11000}}}\<close>.\<close>

definition zero_code_err :: json where
  "zero_code_err = JObj [(''code'', JNum 0), (''errorResponse'', JObj [(''code'', JNum 11000)])]"

definition zero_code_entry :: json where
  "zero_code_entry = JObj [(''err'', zero_code_err)]"

subsection \<open>Stores and scan plans\<close>

text \<open>A collection \<^verbatim>\<open>users\<close> of five documents: every e-mail address is unique, the
  social security numbers form one group of three and one of two (Scenario F).\<close>

definition person :: "int \<Rightarrow> string \<Rightarrow> string \<Rightarrow> json" where
  "person i email ssn = JObj [(''_id'', JNum i), (''email'', JStr email), (''ssn'', JStr ssn)]"

definition users_docs :: "json list" where
  "users_docs =
     [person 1 ''ann@x.org'' ''111'', person 2 ''bob@x.org'' ''222'',
      person 3 ''cat@x.org'' ''222'', person 4 ''dan@x.org'' ''111'',
      person 5 ''eve@x.org'' ''222'']"

text \<open>A relationship collection with one duplicated value, and its record in
  \<^verbatim>\<open>meta.rels\<close> (Scenario D).\<close>

definition link :: "int \<Rightarrow> string \<Rightarrow> json" where
  "link i client = JObj [(''_id'', JNum i), (''client'', JStr client)]"

definition rels_docs :: "json list" where
  "rels_docs = [link 1 ''acme'', link 2 ''acme'']"

definition rels_name :: json where
  "rels_name = JStr ''sharan.rels.clientContact''"

definition meta_doc :: json where
  "meta_doc =
     JObj [(''collectionType'', rels_name),
           (''source'', JObj [(''cardinality'', JNum 5)]),
           (''dest'', JObj [(''cardinality'', JNum 10)])]"

text \<open>The grouping expression \<^verbatim>\<open>"$f"\<close> of a top-level field \<open>f\<close>: its value, or
  \<^verbatim>\<open>null\<close> when the document lacks it.\<close>

definition top_level_field :: "string \<Rightarrow> json \<Rightarrow> json" where
  "top_level_field path d =
     (case path of
        [] \<Rightarrow> JNull
      | c # f \<Rightarrow> (case get_prop (Some d) f of Inr (Some v) \<Rightarrow> v | _ \<Rightarrow> JNull))"

text \<open>A store in which every call succeeds.\<close>

definition demo_store :: store where
  "demo_store =
     \<lparr>client_fails = False,
      close_fails = False,
      connect_fails = False,
      open_fails = (\<lambda>c. False),
      documents = (\<lambda>c. if c = JStr ''users'' then users_docs
                        else if c = rels_name then rels_docs else []),
      field_value = top_level_field,
      aggregate_fails = (\<lambda>c p. False),
      findOne_meta = (\<lambda>c. if c = rels_name then Inr (Some meta_doc) else Inr (Some JNull))\<rparr>"

text \<open>A well-formed scan target, and a plan of two.\<close>

definition target :: "string \<Rightarrow> string list \<Rightarrow> json" where
  "target c fs = JObj [(''collection'', JStr c), (''fields'', JArr (map JStr fs))]"

definition demo_plan :: json where
  "demo_plan = JArr [target ''users'' [''email'', ''ssn''],
                     target ''sharan.rels.clientContact'' [''client'']]"

text \<open>What the scan of \<open>demo_plan\<close> on \<open>demo_store\<close> finds.\<close>

definition ssn_222 :: group where
  "ssn_222 = \<lparr>group_id = JStr ''222'', count = 3,
              docs = [JObj [(''_id'', JNum 2)], JObj [(''_id'', JNum 3)], JObj [(''_id'', JNum 5)]]\<rparr>"

definition ssn_111 :: group where
  "ssn_111 = \<lparr>group_id = JStr ''111'', count = 2,
              docs = [JObj [(''_id'', JNum 1)], JObj [(''_id'', JNum 4)]]\<rparr>"

definition ssn_result :: field_result where
  "ssn_result = \<lparr>field = JStr ''ssn'', duplicates = [ssn_222, ssn_111]\<rparr>"

definition users_result :: collection_result where
  "users_result = \<lparr>collection = JStr ''users'', results = [ssn_result],
                   destCardinality = None, sourceCardinality = None\<rparr>"

definition client_result :: field_result where
  "client_result =
     \<lparr>field = JStr ''client'',
      duplicates = [\<lparr>group_id = JStr ''acme'', count = 2,
                     docs = [JObj [(''_id'', JNum 1)], JObj [(''_id'', JNum 2)]]\<rparr>]\<rparr>"

definition rels_result :: collection_result where
  "rels_result = \<lparr>collection = rels_name, results = [client_result],
                  destCardinality = Some (JNum 10), sourceCardinality = Some (JNum 5)\<rparr>"

text \<open>A plan whose first target has no duplicates at all.\<close>

definition clean_then_dirty_plan :: json where
  "clean_then_dirty_plan = JArr [target ''users'' [''email''], target ''users'' [''email'', ''ssn'']]"

text \<open>The sample store with one failing call: the grouping query on the e-mail
  field of \<^verbatim>\<open>users\<close>, or the lookup in \<^verbatim>\<open>meta.rels\<close>; and the sample store without
  any record in \<^verbatim>\<open>meta.rels\<close>.\<close>

definition email_failing_store :: store where
  "email_failing_store =
     demo_store\<lparr>aggregate_fails := (\<lambda>c p. c = JStr ''users'' \<and> p = ''$email'')\<rparr>"

definition lookup_failing_store :: store where
  "lookup_failing_store = demo_store\<lparr>findOne_meta := (\<lambda>c. Inl LookupError)\<rparr>"

definition no_meta_store :: store where
  "no_meta_store = demo_store\<lparr>findOne_meta := (\<lambda>c. Inr (Some JNull))\<rparr>"

text \<open>Further plans over the two sample collections, and a target without a
  collection name.\<close>

definition rels_target :: json where
  "rels_target = target ''sharan.rels.clientContact'' [''client'']"

definition rels_users_rels_plan :: json where
  "rels_users_rels_plan = JArr ([rels_target] @ target ''users'' [''ssn'', ''email''] # [rels_target])"

definition rels_then_users_plan :: json where
  "rels_then_users_plan = JArr [rels_target, target ''users'' [''email'', ''ssn'']]"

definition users_rels_users_plan :: json where
  "users_rels_users_plan =
     JArr ([target ''users'' [''email'', ''ssn'']] @ rels_target # [target ''users'' [''email'', ''ssn'']])"

definition nameless_target :: json where
  "nameless_target = JObj [(''fields'', JArr [JStr ''email''])]"

text \<open>The result for the relationship collection when no cardinality is attached.\<close>

definition rels_result_bare :: collection_result where
  "rels_result_bare = \<lparr>collection = rels_name, results = [client_result],
                       destCardinality = None, sourceCardinality = None\<rparr>"

subsection \<open>File systems\<close>

text \<open>A disk on which every write and every \<^verbatim>\<open>mkdir\<close> succeeds.\<close>

definition healthy_disk :: "(string \<rightharpoonup> content) \<Rightarrow> filesystem" where
  "healthy_disk fm = \<lparr>files = fm, write_fails = (\<lambda>p. False), mkdir_fails = (\<lambda>p. False)\<rparr>"

text \<open>No failure report, but a plan left by an earlier run; and a failure report
  that is not JSON, with no plan.\<close>

definition stale_plan_fs :: filesystem where
  "stale_plan_fs =
     healthy_disk [''output/duplicates_json/duplicateKeys.json''
                     \<mapsto> Doc (JArr [target ''users'' [''email'', ''ssn'']])]"

definition garbage_report_fs :: filesystem where
  "garbage_report_fs = healthy_disk [''input/updateIndex.failure.json'' \<mapsto> Garbage]"

text \<open>A failure report for two indexes of \<^verbatim>\<open>users\<close>, next to an older plan at the
  path the first driver reads.\<close>

definition users_report :: json where
  "users_report =
     JObj [(''users'', JObj [(''email_1'', JObj [(''err'', JObj [(''code'', JNum 11000)])]),
                             (''ssn_1'', JObj [(''err'', JObj [(''code'', JNum 11000)])])])]"

definition old_plan_fs :: filesystem where
  "old_plan_fs =
     healthy_disk [''input/updateIndex.failure.json'' \<mapsto> Doc users_report,
                   ''output/duplicateKeys.json'' \<mapsto> Doc (JArr [rels_target])]"

text \<open>A report of two collections, the second without any duplicate-key error; a
  report whose second collection has an entry without an error record; a report with
  the zero-code entry; and a disk that holds a given report.\<close>

definition mixed_report :: json where
  "mixed_report =
     JObj [(''users'', JObj sample_indexes),
           (''orders'', JObj [(''sku_1'', JObj [(''err'', JObj [(''code'', JNum 85)])])])]"

definition broken_report :: json where
  "broken_report =
     JObj [(''users'', JObj [(''email_1'', JObj [(''err'', JObj [(''code'', JNum 11000)])])]),
           (''orders'', JObj [(''sku_1'', JObj [])])]"

definition zero_code_report :: json where
  "zero_code_report = JObj [(''users'', JObj [(''x_1'', zero_code_entry)])]"

definition report_fs :: "json \<Rightarrow> filesystem" where
  "report_fs data = healthy_disk [''input/updateIndex.failure.json'' \<mapsto> Doc data]"

section \<open>Properties of the config generator\<close>

lemma fieldName_suffix: "fieldName (s @ ''_1'') = s"
  by (induction s) auto

lemma fieldName_no_suffix: "\<not> suffix ''_1'' n \<Longrightarrow> fieldName n = n"
proof (induction n)
  case Nil
  then show ?case by simp
next
  case (Cons c cs)
  from Cons.prems have "c # cs \<noteq> ''_1''" by auto
  moreover from Cons.prems have "\<not> suffix ''_1'' cs"
    by (auto simp: suffix_Cons)
  ultimately show ?case using Cons.IH by simp
qed

lemma newConfigs_scenario_A: "newConfigs scenario_A = Inr [configEntry ''users'' [''email'']]"
  by (simp add: scenario_A_def newConfigs_def errCode_def)

text \<open>
  Claim C8. The field name derived from an index name is the index name with the suffix
  \<^verbatim>\<open>_1\<close> removed once from its end when it ends so (whatever precedes the suffix, another
  \<^verbatim>\<open>_1\<close> included, is kept), and the index name itself otherwise. On Scenario A the
  generator turns \<^verbatim>\<open>email_1\<close> of \<^verbatim>\<open>users\<close> into the field \<^verbatim>\<open>email\<close>.
\<close>

theorem fieldName_strips_suffix_once:
  "fieldName (s @ ''_1'') = s
   \<and> (\<not> suffix ''_1'' n \<longrightarrow> fieldName n = n)
   \<and> newConfigs scenario_A = Inr [configEntry ''users'' [''email'']]"
  using fieldName_suffix fieldName_no_suffix newConfigs_scenario_A by blast

theorem fieldName_strips_suffix_once_witness:
  "fieldName ''a_1_1'' = ''a_1'' \<and> \<not> suffix ''_1'' ''name'' \<and> fieldName ''name'' = ''name''"
  using fieldName_strips_suffix_once [of "''a_1''" "''name''"]
  by (simp add: suffix_def)

lemma collectFields_acc:
  "collectFields entries acc = Inr fs \<Longrightarrow>
   fs = acc @ map (fieldName \<circ> fst)
                (filter (\<lambda>(n, d). errCode d = Inr (Some (JNum 11000))) entries)"
proof (induction entries arbitrary: acc)
  case Nil
  then show ?case by simp
next
  case (Cons a entries)
  obtain n d where a: "a = (n, d)" by (cases a)
  from Cons.prems a obtain c where c: "errCode d = Inr c"
    by (auto split: sum.splits)
  with Cons.prems a
  have "collectFields entries (if c = Some (JNum 11000) then acc @ [fieldName n] else acc) = Inr fs"
    by simp
  from Cons.IH[OF this] a c show ?case by auto
qed

lemma collectFields_all_read:
  "collectFields entries acc = Inr fs \<Longrightarrow> (n, d) \<in> set entries \<Longrightarrow> \<exists>c. errCode d = Inr c"
proof (induction entries arbitrary: acc)
  case Nil
  then show ?case by simp
next
  case (Cons a entries)
  obtain n' d' where a: "a = (n', d')" by (cases a)
  from Cons.prems a obtain c where c: "errCode d' = Inr c"
    by (auto split: sum.splits)
  with Cons.prems a
  have "collectFields entries (if c = Some (JNum 11000) then acc @ [fieldName n'] else acc) = Inr fs"
    by simp
  from Cons.IH[OF this] Cons.prems(2) a c show ?case by auto
qed

lemma errCode_read:
  "errCode d = Inr c \<Longrightarrow>
   \<exists>err code. get_prop (Some d) ''err'' = Inr err \<and> get_prop err ''code'' = Inr code
     \<and> (c = Some (JNum 11000) \<longleftrightarrow>
           code = Some (JNum 11000)
           \<or> \<not> truthy code
             \<and> (\<exists>er. get_prop err ''errorResponse'' = Inr er \<and> truthy er
                      \<and> get_prop er ''code'' = Inr (Some (JNum 11000))))"
  unfolding errCode_def
  by (auto split: sum.splits if_splits)

section \<open>Properties of the pipeline and of the field loop\<close>

lemma push_doc_inv:
  "\<forall>g\<in>set gs. count g = length (docs g) \<Longrightarrow>
   \<forall>g\<in>set (push_doc k d gs). count g = length (docs g)"
  by (induction gs) auto

lemma foldl_push_doc_inv:
  "\<forall>g\<in>set gs. count g = length (docs g) \<Longrightarrow>
   \<forall>g\<in>set (foldl (\<lambda>gs d. push_doc (key_of d) d gs) gs ds). count g = length (docs g)"
proof (induction ds arbitrary: gs)
  case Nil
  then show ?case by simp
next
  case (Cons d ds)
  have "\<forall>g\<in>set (push_doc (key_of d) d gs). count g = length (docs g)"
    using Cons.prems by (rule push_doc_inv)
  from Cons.IH[OF this] show ?case by simp
qed

lemma group_stage_count: "g \<in> set (group_stage key_of ds) \<Longrightarrow> count g = length (docs g)"
  using foldl_push_doc_inv[of "[]" key_of ds] by (simp add: group_stage_def)

lemma set_pipeline: "set (pipeline key_of ds) = {g \<in> set (group_stage key_of ds). 1 < count g}"
  by (simp add: pipeline_def sort_stage_def match_stage_def)

lemma pipeline_group: "g \<in> set (pipeline key_of ds) \<Longrightarrow> count g = length (docs g) \<and> 1 < count g"
  by (auto simp: set_pipeline group_stage_count)

lemma pipeline_sorted: "sorted_wrt (\<lambda>a b. count b \<le> count a) (pipeline key_of ds)"
proof -
  have "sorted (map (\<lambda>g. - int (count g)) (pipeline key_of ds))"
    by (simp add: pipeline_def sort_stage_def)
  then show ?thesis by (simp add: sorted_map)
qed

lemma aggregate_pipeline:
  "aggregate st c fname = Inr dups \<Longrightarrow> \<exists>key_of ds. dups = pipeline key_of ds"
  by (auto simp: aggregate_def split: if_splits)

lemma scanFields_results:
  "scanFields st c cname fs acc lg = (lg', Inr rs) \<Longrightarrow> fr \<in> set rs \<Longrightarrow>
   fr \<in> set acc \<or> (\<exists>f\<in>set fs. \<exists>fname. js_string f = Inr fname \<and> field fr = f
       \<and> aggregate st c fname = Inr (duplicates fr) \<and> duplicates fr \<noteq> [])"
proof (induction fs arbitrary: acc lg)
  case Nil
  then show ?case by simp
next
  case (Cons f fs)
  from Cons.prems(1) obtain fname where fn: "js_string f = Inr fname"
    by (auto split: sum.splits)
  from Cons.prems(1) fn obtain dups where ag: "aggregate st c fname = Inr dups"
    by (auto split: sum.splits)
  show ?case
  proof (cases "dups = []")
    case True
    with Cons.prems(1) fn ag
    have "scanFields st c cname fs acc (lg @ [Checking fname, NoDuplicates fname cname]) = (lg', Inr rs)"
      by simp
    from Cons.IH[OF this Cons.prems(2)] show ?thesis by auto
  next
    case False
    with Cons.prems(1) fn ag
    have "scanFields st c cname fs (acc @ [\<lparr>field = f, duplicates = dups\<rparr>])
            (lg @ [Checking fname, DuplicatesFound fname cname]) = (lg', Inr rs)"
      by simp
    from Cons.IH[OF this Cons.prems(2)] fn ag False show ?thesis by auto
  qed
qed

lemma scanFields_nonempty:
  "scanFields st c cname fs acc lg = (lg', Inr rs) \<Longrightarrow>
   acc \<noteq> [] \<or> (\<exists>f\<in>set fs. \<exists>fname dups. js_string f = Inr fname
       \<and> aggregate st c fname = Inr dups \<and> dups \<noteq> []) \<Longrightarrow> rs \<noteq> []"
proof (induction fs arbitrary: acc lg)
  case Nil
  then show ?case by simp
next
  case (Cons f fs)
  from Cons.prems(1) obtain fname where fn: "js_string f = Inr fname"
    by (auto split: sum.splits)
  from Cons.prems(1) fn obtain dups where ag: "aggregate st c fname = Inr dups"
    by (auto split: sum.splits)
  show ?case
  proof (cases "dups = []")
    case True
    with Cons.prems(1) fn ag
    have *: "scanFields st c cname fs acc (lg @ [Checking fname, NoDuplicates fname cname]) = (lg', Inr rs)"
      by simp
    from Cons.prems(2) fn ag True
    have "acc \<noteq> [] \<or> (\<exists>f\<in>set fs. \<exists>fname dups. js_string f = Inr fname
       \<and> aggregate st c fname = Inr dups \<and> dups \<noteq> [])" by auto
    from Cons.IH[OF * this] show ?thesis .
  next
    case False
    with Cons.prems(1) fn ag
    have *: "scanFields st c cname fs (acc @ [\<lparr>field = f, duplicates = dups\<rparr>])
            (lg @ [Checking fname, DuplicatesFound fname cname]) = (lg', Inr rs)"
      by simp
    show ?thesis by (rule Cons.IH[OF *]) simp
  qed
qed

lemma scanFields_raises:
  "f \<in> set fs \<Longrightarrow> js_string f = Inr fname \<Longrightarrow> aggregate st c fname = Inl e \<Longrightarrow>
   \<exists>lg' e'. scanFields st c cname fs acc lg = (lg', Inl e')"
proof (induction fs arbitrary: acc lg)
  case Nil
  then show ?case by simp
next
  case (Cons g fs)
  show ?case
  proof (cases "g = f")
    case True
    with Cons.prems show ?thesis by simp
  next
    case False
    with Cons.prems have "f \<in> set fs" by simp
    from Cons.IH[OF this Cons.prems(2,3)] show ?thesis
      by (auto split: sum.splits)
  qed
qed

lemma scanConfig_results:
  "scanConfig st config = (lg, Inr (Some (c, cname, rs))) \<Longrightarrow> fr \<in> set rs \<Longrightarrow>
   \<exists>fname. aggregate st c fname = Inr (duplicates fr) \<and> duplicates fr \<noteq> []"
  unfolding scanConfig_def
  by (auto split: sum.splits if_splits option.splits json.splits prod.splits
           dest!: scanFields_results)

section \<open>Invariants of the scan loops\<close>

lemma enrich_results: "enrich st c cname rs = (lg, Inr r) \<Longrightarrow> results r = rs \<and> collection r = c"
  by (auto simp: enrich_def Let_def split: sum.splits bool.splits if_splits)

lemma processConfig_p1_results:
  assumes "processConfig_p1 st config = (lg, Inr (Some r))"
  shows "results r \<noteq> []"
    and "fr \<in> set (results r) \<Longrightarrow>
         \<exists>fname. aggregate st (collection r) fname = Inr (duplicates fr) \<and> duplicates fr \<noteq> []"
proof -
  from assms obtain lg1 c cname rs lg2 where
    sc: "scanConfig st config = (lg1, Inr (Some (c, cname, rs)))" and ne: "rs \<noteq> []"
    and en: "enrich st c cname rs = (lg2, Inr r)"
    by (auto simp: processConfig_p1_def split: prod.splits sum.splits option.splits if_splits)
  from enrich_results[OF en] have r: "results r = rs" "collection r = c" by simp_all
  show "results r \<noteq> []" using r ne by simp
  show "\<exists>fname. aggregate st (collection r) fname = Inr (duplicates fr) \<and> duplicates fr \<noteq> []"
    if "fr \<in> set (results r)"
    using scanConfig_results[OF sc, of fr] that r by simp
qed

lemma scanLoop_p1_inv:
  assumes step: "\<And>config lg r. processConfig_p1 st config = (lg, Inr (Some r)) \<Longrightarrow> I r"
  shows "\<forall>r\<in>set acc. I r \<Longrightarrow> \<forall>r\<in>set (fst (scanLoop_p1 st cs acc lg)). I r"
proof (induction cs arbitrary: acc lg)
  case Nil
  then show ?case by simp
next
  case (Cons config cs)
  obtain lg' res where pc: "processConfig_p1 st config = (lg', res)" by (cases "processConfig_p1 st config")
  show ?case
  proof (cases res)
    case (Inl e)
    with pc Cons.prems show ?thesis by simp
  next
    case (Inr ro)
    show ?thesis
    proof (cases ro)
      case None
      with pc Inr Cons.IH[OF Cons.prems] show ?thesis by simp
    next
      case (Some r)
      with pc Inr have "I r" using step by blast
      with Cons.prems have "\<forall>x\<in>set (acc @ [r]). I x" by simp
      from Cons.IH[OF this] pc Inr Some show ?thesis by simp
    qed
  qed
qed

lemma fst_findDuplicates_p1:
  "fst (findDuplicates_p1 st configs) =
     (if connect_fails st then []
      else case iterate configs of Inl e \<Rightarrow> [] | Inr cs \<Rightarrow> fst (scanLoop_p1 st cs [] []))"
  by (simp add: findDuplicates_p1_def split: sum.splits prod.splits option.splits)

lemma fst_findDuplicates_p0:
  "fst (findDuplicates_p0 st configs) =
     (if connect_fails st then []
      else case iterate configs of Inl e \<Rightarrow> [] | Inr cs \<Rightarrow> fst (scanLoop_p0 st cs [] []))"
  by (simp add: findDuplicates_p0_def split: sum.splits prod.splits option.splits)

lemma findDuplicates_p1_inv:
  assumes step: "\<And>config lg r. processConfig_p1 st config = (lg, Inr (Some r)) \<Longrightarrow> I r"
  shows "\<forall>r\<in>set (fst (findDuplicates_p1 st configs)). I r"
proof -
  have "\<forall>r\<in>set (fst (scanLoop_p1 st cs [] [])). I r" for cs
    using scanLoop_p1_inv[of st I "[]"] step by simp
  then show ?thesis
    by (auto simp: fst_findDuplicates_p1 split: sum.splits)
qed

lemma set_update_cases:
  "(k, v) \<in> set (AList.update k' v' al) \<Longrightarrow> (k, v) = (k', v') \<or> (k, v) \<in> set al"
  by (induction al) (auto split: if_splits)

lemma set_insert_index: "set (insert_index n k v al) = insert (k, v) (set al)"
  by (induction al) (auto split: option.splits if_splits)

lemma set_obj_set_cases:
  "(k, v) \<in> set (obj_set k' v' al) \<Longrightarrow> (k, v) = (k', v') \<or> (k, v) \<in> set al"
  by (auto simp: obj_set_def set_insert_index dest: set_update_cases split: if_splits option.splits)

lemma scanLoop_p0_inv:
  assumes step: "\<And>config lg c cname rs.
      scanConfig st config = (lg, Inr (Some (c, cname, rs))) \<Longrightarrow> rs \<noteq> [] \<Longrightarrow> I rs"
  shows "\<forall>(k, rs)\<in>set acc. I rs \<Longrightarrow> \<forall>(k, rs)\<in>set (fst (scanLoop_p0 st cs acc lg)). I rs"
proof (induction cs arbitrary: acc lg)
  case Nil
  then show ?case by simp
next
  case (Cons config cs)
  obtain lg' res where sc: "scanConfig st config = (lg', res)" by (cases "scanConfig st config")
  show ?case
  proof (cases res)
    case (Inl e)
    with sc Cons.prems show ?thesis by simp
  next
    case (Inr ro)
    show ?thesis
    proof (cases ro)
      case None
      with sc Inr Cons.IH[OF Cons.prems] show ?thesis by simp
    next
      case (Some t)
      obtain c cname rs where t: "t = (c, cname, rs)" by (cases t)
      show ?thesis
      proof (cases "rs \<noteq> [] \<and> cname \<noteq> ''__proto__''")
        case False
        with sc Inr Some t Cons.IH[OF Cons.prems] show ?thesis by auto
      next
        case True
        with sc Inr Some t have "I rs" using step by blast
        with Cons.prems have "\<forall>(k, rs)\<in>set (obj_set cname rs acc). I rs"
          by (auto dest: set_obj_set_cases)
        from Cons.IH[OF this] sc Inr Some t True show ?thesis by simp
      qed
    qed
  qed
qed

lemma findDuplicates_p0_inv:
  assumes step: "\<And>config lg c cname rs.
      scanConfig st config = (lg, Inr (Some (c, cname, rs))) \<Longrightarrow> rs \<noteq> [] \<Longrightarrow> I rs"
  shows "\<forall>(k, rs)\<in>set (fst (findDuplicates_p0 st configs)). I rs"
proof -
  have loop: "\<forall>(k, rs)\<in>set (fst (scanLoop_p0 st cs [] [])). I rs" for cs
    using scanLoop_p0_inv[of st I "[]"] step by simp
  show ?thesis
  proof (cases "connect_fails st")
    case True
    then show ?thesis by (simp add: fst_findDuplicates_p0)
  next
    case False
    show ?thesis
    proof (cases "iterate configs")
      case (Inl e)
      with False show ?thesis by (simp add: fst_findDuplicates_p0)
    next
      case (Inr cs)
      with False have "fst (findDuplicates_p0 st configs) = fst (scanLoop_p0 st cs [] [])"
        by (simp add: fst_findDuplicates_p0)
      then show ?thesis using loop[of cs] by simp
    qed
  qed
qed

section \<open>Exceptions and skipped targets in the scan loops\<close>

lemma scanLoop_p1_append:
  "scanLoop_p1 st (pre @ post) acc lg =
     (case scanLoop_p1 st pre acc lg of
        (r, l, Some e) \<Rightarrow> (r, l, Some e)
      | (r, l, None) \<Rightarrow> scanLoop_p1 st post r l)"
  by (induction pre arbitrary: acc lg) (auto split: prod.splits sum.splits option.splits)

lemma scanLoop_p0_append:
  "scanLoop_p0 st (pre @ post) acc lg =
     (case scanLoop_p0 st pre acc lg of
        (r, l, Some e) \<Rightarrow> (r, l, Some e)
      | (r, l, None) \<Rightarrow> scanLoop_p0 st post r l)"
  by (induction pre arbitrary: acc lg) (auto split: prod.splits sum.splits option.splits)

lemma scanLoop_p1_log:
  "fst (scanLoop_p1 st cs acc lg) = fst (scanLoop_p1 st cs acc lg')"
  by (induction cs arbitrary: acc lg lg') (auto split: prod.splits sum.splits option.splits)

lemma scanLoop_p0_log:
  "fst (scanLoop_p0 st cs acc lg) = fst (scanLoop_p0 st cs acc lg')"
  by (induction cs arbitrary: acc lg lg') (auto split: prod.splits sum.splits option.splits)

lemma scanLoop_p1_raise:
  assumes "processConfig_p1 st config = (lg', Inl e)"
  shows "fst (scanLoop_p1 st (pre @ config # post) acc lg) = fst (scanLoop_p1 st pre acc lg)"
    and "\<exists>e'. snd (snd (scanLoop_p1 st (pre @ config # post) acc lg)) = Some e'"
  using assms by (auto simp: scanLoop_p1_append split: prod.splits option.splits)

lemma scanLoop_p0_raise:
  assumes "scanConfig st config = (lg', Inl e)"
  shows "fst (scanLoop_p0 st (pre @ config # post) acc lg) = fst (scanLoop_p0 st pre acc lg)"
    and "\<exists>e'. snd (snd (scanLoop_p0 st (pre @ config # post) acc lg)) = Some e'"
  using assms by (auto simp: scanLoop_p0_append split: prod.splits option.splits)

lemma findDuplicates_p1_raise:
  assumes "processConfig_p1 st config = (lg', Inl e)"
  shows "fst (findDuplicates_p1 st (JArr (pre @ config # post))) = fst (findDuplicates_p1 st (JArr pre))
       \<and> (\<exists>e'. last (snd (findDuplicates_p1 st (JArr (pre @ config # post)))) = QueryFailed e')"
proof
  show "fst (findDuplicates_p1 st (JArr (pre @ config # post))) = fst (findDuplicates_p1 st (JArr pre))"
    using scanLoop_p1_raise(1)[OF assms] by (simp add: fst_findDuplicates_p1)
  obtain r l e' where "scanLoop_p1 st (pre @ config # post) [] [] = (r, l, Some e')"
    using scanLoop_p1_raise(2)[OF assms, of pre post "[]" "[]"]
    by (cases "scanLoop_p1 st (pre @ config # post) [] []") auto
  then show "\<exists>e'. last (snd (findDuplicates_p1 st (JArr (pre @ config # post)))) = QueryFailed e'"
    by (simp add: findDuplicates_p1_def)
qed

lemma findDuplicates_p0_raise:
  assumes "scanConfig st config = (lg', Inl e)"
  shows "fst (findDuplicates_p0 st (JArr (pre @ config # post))) = fst (findDuplicates_p0 st (JArr pre))
       \<and> (\<exists>e'. last (snd (findDuplicates_p0 st (JArr (pre @ config # post)))) = QueryFailed e')"
proof
  show "fst (findDuplicates_p0 st (JArr (pre @ config # post))) = fst (findDuplicates_p0 st (JArr pre))"
    using scanLoop_p0_raise(1)[OF assms] by (simp add: fst_findDuplicates_p0)
  obtain r l e' where "scanLoop_p0 st (pre @ config # post) [] [] = (r, l, Some e')"
    using scanLoop_p0_raise(2)[OF assms, of pre post "[]" "[]"]
    by (cases "scanLoop_p0 st (pre @ config # post) [] []") auto
  then show "\<exists>e'. last (snd (findDuplicates_p0 st (JArr (pre @ config # post)))) = QueryFailed e'"
    by (simp add: findDuplicates_p0_def)
qed

lemma scanConfig_valid:
  assumes "get_prop (Some config) ''collection'' = Inr (Some c)" "truthy (Some c)"
    and "get_prop (Some config) ''fields'' = Inr (Some (JArr fs))"
  shows "scanConfig st config =
     (case js_string c of
        Inl e \<Rightarrow> ([], Inl e)
      | Inr cname \<Rightarrow>
          if open_fails st c then ([Processing cname], Inl OpenError)
          else (case scanFields st c cname fs [] [Processing cname] of
                  (lg, Inl e) \<Rightarrow> (lg, Inl e)
                | (lg, Inr collectionResults) \<Rightarrow> (lg, Inr (Some (c, cname, collectionResults)))))"
  using assms by (simp add: scanConfig_def)

lemma scanConfig_raises:
  assumes "get_prop (Some config) ''collection'' = Inr (Some c)" "truthy (Some c)"
    and "get_prop (Some config) ''fields'' = Inr (Some (JArr fs))"
    and "open_fails st c
         \<or> (\<exists>f\<in>set fs. \<exists>fname. js_string f = Inr fname \<and> aggregate_fails st c (CHR ''$'' # fname))"
  shows "\<exists>lg e. scanConfig st config = (lg, Inl e)"
proof (cases "js_string c")
  case (Inl e)
  then show ?thesis by (simp add: scanConfig_valid[OF assms(1-3)])
next
  case (Inr cname)
  show ?thesis
  proof (cases "open_fails st c")
    case True
    with Inr show ?thesis by (simp add: scanConfig_valid[OF assms(1-3)])
  next
    case False
    with assms(4) obtain f fname where f: "f \<in> set fs" "js_string f = Inr fname"
      "aggregate_fails st c (CHR ''$'' # fname)" by blast
    then have "aggregate st c fname = Inl QueryError" by (simp add: aggregate_def)
    from scanFields_raises[OF f(1,2) this]
    obtain lg e where "scanFields st c cname fs [] [Processing cname] = (lg, Inl e)" by blast
    with Inr False show ?thesis by (simp add: scanConfig_valid[OF assms(1-3)])
  qed
qed

lemma processConfig_p1_raises:
  "scanConfig st config = (lg, Inl e) \<Longrightarrow> processConfig_p1 st config = (lg, Inl e)"
  by (simp add: processConfig_p1_def)

lemma processConfig_p1_lookup_raises:
  assumes "get_prop (Some config) ''collection'' = Inr (Some c)" and "truthy (Some c)"
    and "get_prop (Some config) ''fields'' = Inr (Some (JArr fs))"
    and "includes_rels c = Inr True" and "findOne_meta st c = Inl e"
    and "\<exists>f\<in>set fs. \<exists>fname dups. js_string f = Inr fname \<and> aggregate st c fname = Inr dups \<and> dups \<noteq> []"
  shows "\<exists>lg e'. processConfig_p1 st config = (lg, Inl e')"
proof (cases "scanConfig st config")
  case (Pair lg res)
  show ?thesis
  proof (cases res)
    case (Inl e')
    with Pair show ?thesis using processConfig_p1_raises by blast
  next
    case (Inr x)
    with Pair obtain cname rs where x: "x = Some (c, cname, rs)"
      and sf: "scanFields st c cname fs [] [Processing cname] = (lg, Inr rs)"
      by (auto simp: scanConfig_valid[OF assms(1-3)] split: sum.splits if_splits prod.splits)
    from scanFields_nonempty[OF sf] assms(6) have "rs \<noteq> []" by blast
    with Pair Inr x assms(4,5) show ?thesis
      by (simp add: processConfig_p1_def enrich_def)
  qed
qed

lemma scanConfig_malformed:
  assumes "get_prop (Some config) ''collection'' = Inr collectionName"
    and "get_prop (Some config) ''fields'' = Inr flds"
    and "\<not> truthy collectionName \<or> \<not> isArray flds"
  shows "scanConfig st config = ([BadConfig config], Inr None)"
  using assms by (auto simp: scanConfig_def)

section \<open>What a scan without failure returns\<close>

lemma scanConfig_name:
  "scanConfig st config = (lg, Inr (Some (c, cname, rs))) \<Longrightarrow> js_string c = Inr cname"
  unfolding scanConfig_def
  by (auto split: sum.splits if_splits option.splits json.splits prod.splits)

lemma processConfig_p1_name:
  assumes "processConfig_p1 st config = (lg, Inr (Some r))"
  shows "\<exists>s. js_string (collection r) = Inr s"
proof -
  from assms obtain lg1 c cname rs lg2 where
    sc: "scanConfig st config = (lg1, Inr (Some (c, cname, rs)))"
    and en: "enrich st c cname rs = (lg2, Inr r)"
    by (auto simp: processConfig_p1_def split: prod.splits sum.splits option.splits if_splits)
  from enrich_results[OF en] scanConfig_name[OF sc] show ?thesis by simp
qed

lemma aggregate_retained:
  "aggregate st c fname = Inr dups \<Longrightarrow>
   dups = sort_stage (retained st c fname)"
  by (auto simp: aggregate_def pipeline_def retained_def split: if_splits)

lemma sort_stage_props:
  "mset (sort_stage gs) = mset gs"
  "sorted_wrt (\<lambda>a b. count b \<le> count a) (sort_stage gs)"
proof -
  show "mset (sort_stage gs) = mset gs" by (simp add: sort_stage_def)
  have "sorted (map (\<lambda>g. - int (count g)) (sort_stage gs))"
    by (simp add: sort_stage_def)
  then show "sorted_wrt (\<lambda>a b. count b \<le> count a) (sort_stage gs)"
    by (simp add: sorted_map)
qed

lemma sort_stage_empty: "sort_stage gs = [] \<longleftrightarrow> gs = []"
  using sort_stage_props(1)[of gs] by (metis mset_zero_iff)

lemma scanConfig_field_results:
  "scanConfig st config = (lg, Inr (Some (c, cname, rs))) \<Longrightarrow> fr \<in> set rs \<Longrightarrow>
   \<exists>fname. js_string (field fr) = Inr fname \<and> aggregate st c fname = Inr (duplicates fr)"
  unfolding scanConfig_def
  by (auto split: sum.splits if_splits option.splits json.splits prod.splits
           dest!: scanFields_results)

lemma scanFields_grows:
  "scanFields st c cname fs acc lg = (lg', Inr rs) \<Longrightarrow> set acc \<subseteq> set rs"
proof (induction fs arbitrary: acc lg)
  case Nil
  then show ?case by simp
next
  case (Cons f fs)
  from Cons.prems obtain fname where fn: "js_string f = Inr fname"
    by (auto split: sum.splits)
  from Cons.prems fn obtain dups where ag: "aggregate st c fname = Inr dups"
    by (auto split: sum.splits)
  show ?case
  proof (cases "dups = []")
    case True
    with Cons.prems fn ag
    have "scanFields st c cname fs acc (lg @ [Checking fname, NoDuplicates fname cname]) = (lg', Inr rs)"
      by simp
    from Cons.IH[OF this] show ?thesis .
  next
    case False
    with Cons.prems fn ag
    have "scanFields st c cname fs (acc @ [\<lparr>field = f, duplicates = dups\<rparr>])
            (lg @ [Checking fname, DuplicatesFound fname cname]) = (lg', Inr rs)"
      by simp
    from Cons.IH[OF this] show ?thesis by simp
  qed
qed

lemma scanFields_complete:
  "scanFields st c cname fs acc lg = (lg', Inr rs) \<Longrightarrow> f \<in> set fs \<Longrightarrow>
   js_string f = Inr fname \<Longrightarrow> retained st c fname \<noteq> [] \<Longrightarrow>
   \<lparr>field = f, duplicates = sort_stage (retained st c fname)\<rparr> \<in> set rs"
proof (induction fs arbitrary: acc lg)
  case Nil
  then show ?case by simp
next
  case (Cons g fs)
  from Cons.prems(1) obtain gname where gn: "js_string g = Inr gname"
    by (auto split: sum.splits)
  from Cons.prems(1) gn obtain dups where ag: "aggregate st c gname = Inr dups"
    by (auto split: sum.splits)
  note dd = aggregate_retained[OF ag]
  show ?case
  proof (cases "dups = []")
    case True
    with Cons.prems(1) gn ag
    have *: "scanFields st c cname fs acc (lg @ [Checking gname, NoDuplicates gname cname]) = (lg', Inr rs)"
      by simp
    from True dd have "retained st c gname = []" by (simp add: sort_stage_empty)
    with Cons.prems(3,4) gn have "g \<noteq> f" by auto
    with Cons.prems(2) have "f \<in> set fs" by simp
    from Cons.IH[OF * this Cons.prems(3,4)] show ?thesis .
  next
    case False
    with Cons.prems(1) gn ag
    have *: "scanFields st c cname fs (acc @ [\<lparr>field = g, duplicates = dups\<rparr>])
            (lg @ [Checking gname, DuplicatesFound gname cname]) = (lg', Inr rs)"
      by simp
    show ?thesis
    proof (cases "g = f")
      case True
      with gn Cons.prems(3) have "gname = fname" by simp
      with dd True have "\<lparr>field = f, duplicates = sort_stage (retained st c fname)\<rparr>
          \<in> set (acc @ [\<lparr>field = g, duplicates = dups\<rparr>])" by simp
      with scanFields_grows[OF *] show ?thesis by blast
    next
      case False
      with Cons.prems(2) have "f \<in> set fs" by simp
      from Cons.IH[OF * this Cons.prems(3,4)] show ?thesis .
    qed
  qed
qed

lemma scanLoop_p1_grows:
  "set acc \<subseteq> set (fst (scanLoop_p1 st cs acc lg))"
proof (induction cs arbitrary: acc lg)
  case Nil
  then show ?case by simp
next
  case (Cons config cs)
  show ?case
  proof (cases "processConfig_p1 st config")
    case (Pair lg' res)
    show ?thesis
    proof (cases res)
      case (Inl e)
      with Pair show ?thesis by simp
    next
      case (Inr ro)
      show ?thesis
      proof (cases ro)
        case None
        with Pair Inr Cons.IH[of acc "lg @ lg'"] show ?thesis by simp
      next
        case (Some r)
        with Pair Inr Cons.IH[of "acc @ [r]" "lg @ lg'"] show ?thesis by simp
      qed
    qed
  qed
qed

lemma scanLoop_p1_complete:
  "scanLoop_p1 st cs acc lg = (res, lg', None) \<Longrightarrow> config \<in> set cs \<Longrightarrow>
   \<exists>l ro. processConfig_p1 st config = (l, Inr ro) \<and> (\<forall>r. ro = Some r \<longrightarrow> r \<in> set res)"
proof (induction cs arbitrary: acc lg)
  case Nil
  then show ?case by simp
next
  case (Cons a cs)
  obtain l x where pc: "processConfig_p1 st a = (l, x)" by (cases "processConfig_p1 st a")
  from Cons.prems(1) pc obtain ro where x: "x = Inr ro"
    by (cases x) auto
  let ?acc = "acc @ (case ro of None \<Rightarrow> [] | Some r \<Rightarrow> [r])"
  from Cons.prems(1) pc x have rest: "scanLoop_p1 st cs ?acc (lg @ l) = (res, lg', None)"
    by (cases ro) auto
  show ?case
  proof (cases "config = a")
    case True
    from scanLoop_p1_grows[of ?acc st cs "lg @ l"] rest have "set ?acc \<subseteq> set res" by simp
    with True pc x show ?thesis by (cases ro) auto
  next
    case False
    with Cons.prems(2) have "config \<in> set cs" by simp
    from Cons.IH[OF rest this] show ?thesis .
  qed
qed

lemma quiet_scan_p1:
  assumes "\<forall>e. QueryFailed e \<notin> set (snd (findDuplicates_p1 st (JArr cs)))"
  shows "\<exists>lg. scanLoop_p1 st cs [] [] = (fst (findDuplicates_p1 st (JArr cs)), lg, None)"
proof (cases "connect_fails st")
  case True
  with assms show ?thesis by (simp add: findDuplicates_p1_def)
next
  case False
  obtain res lg eo where sl: "scanLoop_p1 st cs [] [] = (res, lg, eo)"
    by (cases "scanLoop_p1 st cs [] []") auto
  with False assms have "eo = None" by (cases eo) (auto simp: findDuplicates_p1_def)
  with False sl show ?thesis by (simp add: findDuplicates_p1_def)
qed

lemma quiet_scan_p1_extends:
  assumes "\<forall>e. QueryFailed e \<notin> set (snd (findDuplicates_p1 st (JArr cs)))"
  shows "set (fst (findDuplicates_p1 st (JArr cs)))
           \<subseteq> set (fst (findDuplicates_p1 st (JArr (cs @ post))))"
proof (cases "connect_fails st")
  case True
  then show ?thesis by (simp add: fst_findDuplicates_p1)
next
  case False
  from quiet_scan_p1[OF assms] obtain lg
    where sl: "scanLoop_p1 st cs [] [] = (fst (findDuplicates_p1 st (JArr cs)), lg, None)"
    by blast
  have "fst (scanLoop_p1 st (cs @ post) [] [])
          = fst (scanLoop_p1 st post (fst (findDuplicates_p1 st (JArr cs))) lg)"
    by (simp add: scanLoop_p1_append sl)
  with scanLoop_p1_grows[of "fst (findDuplicates_p1 st (JArr cs))" st post lg] False
  show ?thesis by (simp add: fst_findDuplicates_p1)
qed

lemma processConfig_p1_complete:
  assumes v: "get_prop (Some config) ''collection'' = Inr (Some c)" "truthy (Some c)"
    "get_prop (Some config) ''fields'' = Inr (Some (JArr fs))"
    and pc: "processConfig_p1 st config = (l, Inr ro)"
    and f: "f \<in> set fs" "js_string f = Inr fname" "retained st c fname \<noteq> []"
  shows "\<exists>r. ro = Some r \<and> collection r = c
           \<and> \<lparr>field = f, duplicates = sort_stage (retained st c fname)\<rparr> \<in> set (results r)"
proof -
  obtain l0 x where sc: "scanConfig st config = (l0, x)" by (cases "scanConfig st config")
  from pc sc obtain y where x: "x = Inr y"
    by (cases x) (auto simp: processConfig_p1_def)
  from sc x obtain cname rs where y: "y = Some (c, cname, rs)"
    and sf: "scanFields st c cname fs [] [Processing cname] = (l0, Inr rs)"
    by (auto simp: scanConfig_valid[OF v] split: sum.splits if_splits prod.splits)
  from scanFields_complete[OF sf f]
  have m: "\<lparr>field = f, duplicates = sort_stage (retained st c fname)\<rparr> \<in> set rs" .
  then have ne: "rs \<noteq> []" by auto
  from pc sc x y ne obtain l1 r where en: "enrich st c cname rs = (l1, Inr r)" and ro: "ro = Some r"
    by (auto simp: processConfig_p1_def split: prod.splits sum.splits)
  from enrich_results[OF en] m ro show ?thesis by simp
qed

lemma scanLoop_p0_keyed_inv:
  assumes step: "\<And>config lg c cname rs.
      scanConfig st config = (lg, Inr (Some (c, cname, rs))) \<Longrightarrow> rs \<noteq> [] \<Longrightarrow> I cname rs"
  shows "\<forall>(k, rs)\<in>set acc. I k rs \<Longrightarrow> \<forall>(k, rs)\<in>set (fst (scanLoop_p0 st cs acc lg)). I k rs"
proof (induction cs arbitrary: acc lg)
  case Nil
  then show ?case by simp
next
  case (Cons config cs)
  obtain lg' res where sc: "scanConfig st config = (lg', res)" by (cases "scanConfig st config")
  show ?case
  proof (cases res)
    case (Inl e)
    with sc Cons.prems show ?thesis by simp
  next
    case (Inr ro)
    show ?thesis
    proof (cases ro)
      case None
      with sc Inr Cons.IH[OF Cons.prems] show ?thesis by simp
    next
      case (Some t)
      obtain c cname rs where t: "t = (c, cname, rs)" by (cases t)
      show ?thesis
      proof (cases "rs \<noteq> [] \<and> cname \<noteq> ''__proto__''")
        case False
        with sc Inr Some t Cons.IH[OF Cons.prems] show ?thesis by auto
      next
        case True
        with sc Inr Some t have "I cname rs" using step by blast
        with Cons.prems have "\<forall>(k, rs)\<in>set (obj_set cname rs acc). I k rs"
          by (auto dest: set_obj_set_cases)
        from Cons.IH[OF this] sc Inr Some t True show ?thesis by simp
      qed
    qed
  qed
qed

lemma findDuplicates_p0_keyed_inv:
  assumes step: "\<And>config lg c cname rs.
      scanConfig st config = (lg, Inr (Some (c, cname, rs))) \<Longrightarrow> rs \<noteq> [] \<Longrightarrow> I cname rs"
  shows "\<forall>(k, rs)\<in>set (fst (findDuplicates_p0 st configs)). I k rs"
proof -
  have loop: "\<forall>(k, rs)\<in>set (fst (scanLoop_p0 st cs [] [])). I k rs" for cs
    using scanLoop_p0_keyed_inv[of st I "[]"] step by simp
  show ?thesis
  proof (cases "connect_fails st")
    case True
    then show ?thesis by (simp add: fst_findDuplicates_p0)
  next
    case False
    show ?thesis
    proof (cases "iterate configs")
      case (Inl e)
      with False show ?thesis by (simp add: fst_findDuplicates_p0)
    next
      case (Inr cs)
      with False have "fst (findDuplicates_p0 st configs) = fst (scanLoop_p0 st cs [] [])"
        by (simp add: fst_findDuplicates_p0)
      then show ?thesis using loop[of cs] by simp
    qed
  qed
qed

section \<open>The sample scan, evaluated\<close>

lemmas pipeline_defs =
  pipeline_def sort_stage_def match_stage_def group_stage_def doc_ref_def top_level_field_def

lemma demo_store_simps:
  "connect_fails demo_store = False"
  "open_fails demo_store c = False"
  "aggregate_fails demo_store c p = False"
  "field_value demo_store = top_level_field"
  "documents demo_store (JStr ''users'') = users_docs"
  "documents demo_store (JStr ''sharan.rels.clientContact'') = rels_docs"
  "findOne_meta demo_store (JStr ''sharan.rels.clientContact'') = Inr (Some meta_doc)"
  by (simp_all add: demo_store_def rels_name_def)

lemma pipeline_users_email: "pipeline (top_level_field ''$email'') users_docs = []"
  by (simp add: pipeline_defs users_docs_def person_def)

lemma pipeline_users_ssn: "pipeline (top_level_field ''$ssn'') users_docs = [ssn_222, ssn_111]"
  by (simp add: pipeline_defs users_docs_def person_def ssn_222_def ssn_111_def)

lemma pipeline_rels_client:
  "pipeline (top_level_field ''$client'') rels_docs = duplicates client_result"
  by (simp add: pipeline_defs rels_docs_def link_def client_result_def)

lemma aggregate_demo:
  "aggregate demo_store (JStr ''users'') ''email'' = Inr []"
  "aggregate demo_store (JStr ''users'') ''ssn'' = Inr [ssn_222, ssn_111]"
  "aggregate demo_store (JStr ''sharan.rels.clientContact'') ''client'' = Inr (duplicates client_result)"
  by (simp_all add: aggregate_def demo_store_simps pipeline_users_email pipeline_users_ssn
        pipeline_rels_client)

lemma scanConfig_demo_users:
  "scanConfig demo_store (target ''users'' [''email'', ''ssn'']) =
     ([Processing ''users'', Checking ''email'', NoDuplicates ''email'' ''users'',
       Checking ''ssn'', DuplicatesFound ''ssn'' ''users''],
      Inr (Some (JStr ''users'', ''users'', [ssn_result])))"
  by (simp add: scanConfig_def target_def demo_store_simps aggregate_demo ssn_result_def)

lemma scanConfig_demo_rels:
  "scanConfig demo_store (target ''sharan.rels.clientContact'' [''client'']) =
     ([Processing ''sharan.rels.clientContact'', Checking ''client'',
       DuplicatesFound ''client'' ''sharan.rels.clientContact''],
      Inr (Some (rels_name, ''sharan.rels.clientContact'', [client_result])))"
  by (simp add: scanConfig_def target_def demo_store_simps aggregate_demo client_result_def rels_name_def)

lemma includes_rels_demo:
  "includes_rels (JStr ''users'') = Inr False"
  "includes_rels rels_name = Inr True"
  by (simp_all add: rels_name_def)

lemma enrich_demo_rels:
  "enrich demo_store rels_name ''sharan.rels.clientContact'' [client_result] =
     ([RelsLookup ''sharan.rels.clientContact''], Inr rels_result)"
  by (simp add: enrich_def includes_rels_demo)
     (simp add: rels_name_def demo_store_simps meta_doc_def side_cardinality_def rels_result_def)

lemma enrich_demo_users:
  "enrich demo_store (JStr ''users'') ''users'' [ssn_result] = ([], Inr users_result)"
  by (simp add: enrich_def includes_rels_demo users_result_def)

lemma processConfig_p1_demo_users:
  "processConfig_p1 demo_store (target ''users'' [''email'', ''ssn'']) =
     ([Processing ''users'', Checking ''email'', NoDuplicates ''email'' ''users'',
       Checking ''ssn'', DuplicatesFound ''ssn'' ''users''], Inr (Some users_result))"
  by (simp add: processConfig_p1_def scanConfig_demo_users enrich_demo_users)

lemma processConfig_p1_demo_rels:
  "processConfig_p1 demo_store (target ''sharan.rels.clientContact'' [''client'']) =
     ([Processing ''sharan.rels.clientContact'', Checking ''client'',
       DuplicatesFound ''client'' ''sharan.rels.clientContact'',
       RelsLookup ''sharan.rels.clientContact''], Inr (Some rels_result))"
  by (simp add: processConfig_p1_def scanConfig_demo_rels enrich_demo_rels)

lemma findDuplicates_p1_demo:
  "fst (findDuplicates_p1 demo_store demo_plan) = [users_result, rels_result]"
  by (simp add: findDuplicates_p1_def demo_plan_def demo_store_simps processConfig_p1_demo_users
        processConfig_p1_demo_rels)

lemma findDuplicates_p0_demo:
  "fst (findDuplicates_p0 demo_store demo_plan) =
     [(''users'', [ssn_result]), (''sharan.rels.clientContact'', [client_result])]"
  by code_simp


lemma demo_scan_log:
  "snd (findDuplicates_p1 demo_store
          (JArr [target ''users'' [''email'', ''ssn''],
                 target ''sharan.rels.clientContact'' [''client'']]))
     = [Processing ''users'', Checking ''email'', NoDuplicates ''email'' ''users'',
        Checking ''ssn'', DuplicatesFound ''ssn'' ''users'',
        Processing ''sharan.rels.clientContact'', Checking ''client'',
        DuplicatesFound ''client'' ''sharan.rels.clientContact'',
        RelsLookup ''sharan.rels.clientContact'']"
  by code_simp

lemma retained_demo_ssn:
  "retained demo_store (JStr ''users'') ''ssn'' = [ssn_111, ssn_222]"
  "sort_stage [ssn_111, ssn_222] = [ssn_222, ssn_111]"
  by code_simp+

lemma scanConfig_demo_clean:
  "scanConfig demo_store (target ''users'' [''email'']) =
     ([Processing ''users'', Checking ''email'', NoDuplicates ''email'' ''users''],
      Inr (Some (JStr ''users'', ''users'', [])))"
  by (simp add: scanConfig_def target_def demo_store_simps aggregate_demo)

lemma findDuplicates_p1_clean_then_dirty:
  "fst (findDuplicates_p1 demo_store clean_then_dirty_plan) = [users_result]"
  by (simp add: findDuplicates_p1_def clean_then_dirty_plan_def demo_store_simps
        processConfig_p1_demo_users)
     (simp add: processConfig_p1_def scanConfig_demo_clean)

lemma target_props:
  "get_prop (Some (target c fs)) ''collection'' = Inr (Some (JStr c))"
  "get_prop (Some (target c fs)) ''fields'' = Inr (Some (JArr (map JStr fs)))"
  by (simp_all add: target_def)

lemma email_query_fails: "aggregate_fails email_failing_store (JStr ''users'') ''$email''"
  by (simp add: email_failing_store_def)

lemma findDuplicates_email_failing:
  "fst (findDuplicates_p1 email_failing_store demo_plan) = []"
  "fst (findDuplicates_p1 email_failing_store (JArr [rels_target])) = [rels_result]"
  "fst (findDuplicates_p0 email_failing_store (JArr [rels_target])) =
     [(''sharan.rels.clientContact'', [client_result])]"
  by code_simp+

lemma lookup_fails: "findOne_meta lookup_failing_store rels_name = Inl LookupError"
  by (simp add: lookup_failing_store_def)

lemma aggregate_lookup_failing_client:
  "aggregate lookup_failing_store rels_name ''client'' = Inr (duplicates client_result)"
  "duplicates client_result \<noteq> []"
  by code_simp+

lemma findDuplicates_lookup_failing:
  "fst (findDuplicates_p1 lookup_failing_store rels_then_users_plan) = []"
  "fst (findDuplicates_p1 lookup_failing_store (JArr [target ''users'' [''email'', ''ssn'']])) = [users_result]"
  "fst (findDuplicates_p1 no_meta_store rels_then_users_plan) = [rels_result_bare, users_result]"
  by code_simp+

lemma findDuplicates_null_first:
  "findDuplicates_p1 demo_store (JArr [JNull, target ''users'' [''email'', ''ssn'']]) =
     ([], [QueryFailed TypeError])"
  "findDuplicates_p0 demo_store (JArr [JNull, target ''users'' [''email'', ''ssn'']]) =
     ([], [QueryFailed TypeError])"
  "fst (findDuplicates_p1 demo_store (JArr [target ''users'' [''email'', ''ssn'']])) = [users_result]"
  "fst (findDuplicates_p0 demo_store (JArr [target ''users'' [''email'', ''ssn'']])) = [(''users'', [ssn_result])]"
  by code_simp+

section \<open>Properties of the scanner's results\<close>

text \<open>
  Claim C4. In every duplicate group that \<^verbatim>\<open>findDuplicates\<close> returns, in either driver,
  the count equals the number of collected members (\<open>docs\<close>) and is greater than one: no
  group with a count of one or less appears in any result.
\<close>

theorem duplicate_groups_counted:
  "(\<forall>r\<in>set (fst (findDuplicates_p1 st configs)). \<forall>fr\<in>set (results r). \<forall>g\<in>set (duplicates fr).
       count g = length (docs g) \<and> 1 < count g)
   \<and> (\<forall>(k, rs)\<in>set (fst (findDuplicates_p0 st configs)). \<forall>fr\<in>set rs. \<forall>g\<in>set (duplicates fr).
       count g = length (docs g) \<and> 1 < count g)"
proof
  show "\<forall>r\<in>set (fst (findDuplicates_p1 st configs)). \<forall>fr\<in>set (results r). \<forall>g\<in>set (duplicates fr).
       count g = length (docs g) \<and> 1 < count g"
  proof (rule findDuplicates_p1_inv, intro ballI)
    fix config lg r fr g
    assume pc: "processConfig_p1 st config = (lg, Inr (Some r))"
      and fr: "fr \<in> set (results r)" and g: "g \<in> set (duplicates fr)"
    from processConfig_p1_results(2)[OF pc fr] obtain key_of ds
      where "duplicates fr = pipeline key_of ds"
      using aggregate_pipeline by blast
    with g have "g \<in> set (pipeline key_of ds)" by simp
    then show "count g = length (docs g) \<and> 1 < count g"
      by (rule pipeline_group)
  qed
  show "\<forall>(k, rs)\<in>set (fst (findDuplicates_p0 st configs)). \<forall>fr\<in>set rs. \<forall>g\<in>set (duplicates fr).
       count g = length (docs g) \<and> 1 < count g"
  proof (rule findDuplicates_p0_inv, intro ballI)
    fix config lg c cname rs fr g
    assume sc: "scanConfig st config = (lg, Inr (Some (c, cname, rs)))"
      and fr: "fr \<in> set rs" and g: "g \<in> set (duplicates fr)"
    from scanConfig_results[OF sc fr] obtain key_of ds
      where "duplicates fr = pipeline key_of ds"
      using aggregate_pipeline by blast
    with g have "g \<in> set (pipeline key_of ds)" by simp
    then show "count g = length (docs g) \<and> 1 < count g"
      by (rule pipeline_group)
  qed
qed

theorem duplicate_groups_counted_witness:
  "users_result \<in> set (fst (findDuplicates_p1 demo_store demo_plan))
   \<and> ssn_result \<in> set (results users_result)
   \<and> ssn_111 \<in> set (duplicates ssn_result)
   \<and> count ssn_111 = length (docs ssn_111) \<and> 1 < count ssn_111"
proof -
  have m: "users_result \<in> set (fst (findDuplicates_p1 demo_store demo_plan))"
    "ssn_result \<in> set (results users_result)" "ssn_111 \<in> set (duplicates ssn_result)"
    by (simp_all add: findDuplicates_p1_demo users_result_def ssn_result_def)
  with duplicate_groups_counted [of demo_store demo_plan] show ?thesis by blast
qed

text \<open>
  Claim C6. Every duplicates list that \<^verbatim>\<open>findDuplicates\<close> returns, in either driver, is
  made of exactly the groups the \<^verbatim>\<open>$match\<close> stage retained for its field and collection,
  in order of count, largest first. And in the second driver, when the scan of a plan
  up to and including a well-formed target logs no failure, every field of that target
  for which some group was retained has its entry in the result of the collection,
  whatever follows in the plan, and its duplicates list is the retained groups in
  that order.
\<close>

theorem retained_groups_listed_by_count:
  "(\<forall>r\<in>set (fst (findDuplicates_p1 st configs)). \<forall>fr\<in>set (results r).
       \<exists>fname. js_string (field fr) = Inr fname
         \<and> mset (duplicates fr) = mset (retained st (collection r) fname)
         \<and> sorted_wrt (\<lambda>a b. count b \<le> count a) (duplicates fr))
   \<and> (\<forall>(k, rs)\<in>set (fst (findDuplicates_p0 st configs)). \<forall>fr\<in>set rs.
       \<exists>c fname. js_string c = Inr k \<and> js_string (field fr) = Inr fname
         \<and> mset (duplicates fr) = mset (retained st c fname)
         \<and> sorted_wrt (\<lambda>a b. count b \<le> count a) (duplicates fr))
   \<and> ((\<forall>e. QueryFailed e \<notin> set (snd (findDuplicates_p1 st (JArr cs))))
        \<and> config \<in> set cs
        \<and> get_prop (Some config) ''collection'' = Inr (Some c) \<and> truthy (Some c)
        \<and> get_prop (Some config) ''fields'' = Inr (Some (JArr fs))
        \<and> f \<in> set fs \<and> js_string f = Inr fname \<and> retained st c fname \<noteq> []
       \<longrightarrow> (\<exists>r\<in>set (fst (findDuplicates_p1 st (JArr (cs @ post)))). collection r = c
              \<and> \<lparr>field = f, duplicates = sort_stage (retained st c fname)\<rparr> \<in> set (results r)
              \<and> mset (sort_stage (retained st c fname)) = mset (retained st c fname)
              \<and> sorted_wrt (\<lambda>a b. count b \<le> count a) (sort_stage (retained st c fname))))"
proof (intro conjI impI)
  show "\<forall>r\<in>set (fst (findDuplicates_p1 st configs)). \<forall>fr\<in>set (results r).
       \<exists>fname. js_string (field fr) = Inr fname
         \<and> mset (duplicates fr) = mset (retained st (collection r) fname)
         \<and> sorted_wrt (\<lambda>a b. count b \<le> count a) (duplicates fr)"
  proof (rule findDuplicates_p1_inv, intro ballI)
    fix config lg r fr
    assume pc: "processConfig_p1 st config = (lg, Inr (Some r))"
      and fr: "fr \<in> set (results r)"
    from pc obtain lg1 c cname rs lg2 where
      sc: "scanConfig st config = (lg1, Inr (Some (c, cname, rs)))"
      and en: "enrich st c cname rs = (lg2, Inr r)"
      by (auto simp: processConfig_p1_def split: prod.splits sum.splits option.splits if_splits)
    from enrich_results[OF en] fr have "fr \<in> set rs" "collection r = c" by simp_all
    with scanConfig_field_results[OF sc, of fr] aggregate_retained
    show "\<exists>fname. js_string (field fr) = Inr fname
         \<and> mset (duplicates fr) = mset (retained st (collection r) fname)
         \<and> sorted_wrt (\<lambda>a b. count b \<le> count a) (duplicates fr)"
      by (metis sort_stage_props)
  qed
  show "\<forall>(k, rs)\<in>set (fst (findDuplicates_p0 st configs)). \<forall>fr\<in>set rs.
       \<exists>c fname. js_string c = Inr k \<and> js_string (field fr) = Inr fname
         \<and> mset (duplicates fr) = mset (retained st c fname)
         \<and> sorted_wrt (\<lambda>a b. count b \<le> count a) (duplicates fr)"
  proof (rule findDuplicates_p0_keyed_inv, intro ballI)
    fix config lg c cname rs fr
    assume sc: "scanConfig st config = (lg, Inr (Some (c, cname, rs)))"
      and fr: "fr \<in> set rs"
    from scanConfig_field_results[OF sc fr] scanConfig_name[OF sc] aggregate_retained
    show "\<exists>c fname. js_string c = Inr cname \<and> js_string (field fr) = Inr fname
         \<and> mset (duplicates fr) = mset (retained st c fname)
         \<and> sorted_wrt (\<lambda>a b. count b \<le> count a) (duplicates fr)"
      by (metis sort_stage_props)
  qed
  assume a: "(\<forall>e. QueryFailed e \<notin> set (snd (findDuplicates_p1 st (JArr cs))))
        \<and> config \<in> set cs
        \<and> get_prop (Some config) ''collection'' = Inr (Some c) \<and> truthy (Some c)
        \<and> get_prop (Some config) ''fields'' = Inr (Some (JArr fs))
        \<and> f \<in> set fs \<and> js_string f = Inr fname \<and> retained st c fname \<noteq> []"
  from a quiet_scan_p1 obtain lg
    where sl: "scanLoop_p1 st cs [] [] = (fst (findDuplicates_p1 st (JArr cs)), lg, None)" by blast
  from a scanLoop_p1_complete[OF sl, of config] obtain l ro
    where pc: "processConfig_p1 st config = (l, Inr ro)"
      and mem: "\<forall>r. ro = Some r \<longrightarrow> r \<in> set (fst (findDuplicates_p1 st (JArr cs)))" by blast
  from a processConfig_p1_complete[OF _ _ _ pc, of c fs f fname] obtain r
    where "ro = Some r" "collection r = c"
      "\<lparr>field = f, duplicates = sort_stage (retained st c fname)\<rparr> \<in> set (results r)" by blast
  with mem sort_stage_props[of "retained st c fname"] a quiet_scan_p1_extends[of st cs post]
  show "\<exists>r\<in>set (fst (findDuplicates_p1 st (JArr (cs @ post)))). collection r = c
              \<and> \<lparr>field = f, duplicates = sort_stage (retained st c fname)\<rparr> \<in> set (results r)
              \<and> mset (sort_stage (retained st c fname)) = mset (retained st c fname)
              \<and> sorted_wrt (\<lambda>a b. count b \<le> count a) (sort_stage (retained st c fname))"
    by blast
qed

theorem retained_groups_listed_by_count_witness:
  "retained demo_store (JStr ''users'') ''ssn'' = [ssn_111, ssn_222]
   \<and> map count [ssn_222, ssn_111] = [3, 2]
   \<and> (\<exists>r\<in>set (fst (findDuplicates_p1 demo_store demo_plan)). collection r = JStr ''users''
         \<and> \<lparr>field = JStr ''ssn'', duplicates = [ssn_222, ssn_111]\<rparr> \<in> set (results r))
   \<and> sorted_wrt (\<lambda>a b. count b \<le> count a) [ssn_222, ssn_111]"
proof -
  let ?users = "target ''users'' [''email'', ''ssn'']"
  let ?cs = "[?users, target ''sharan.rels.clientContact'' [''client'']]"
  have q: "\<forall>e. QueryFailed e \<notin> set (snd (findDuplicates_p1 demo_store (JArr ?cs)))"
    by (simp add: demo_scan_log)
  have r: "retained demo_store (JStr ''users'') ''ssn'' \<noteq> []"
    by (simp add: retained_demo_ssn)
  have c: "map count [ssn_222, ssn_111] = [3, 2]"
    by (simp add: ssn_222_def ssn_111_def)
  from retained_groups_listed_by_count
    [where st = demo_store and cs = ?cs and config = ?users and c = "JStr ''users''"
       and fs = "map JStr [''email'', ''ssn'']" and f = "JStr ''ssn''" and fname = "''ssn''"
       and post = "[]"]
    q r target_props
  have "\<exists>r\<in>set (fst (findDuplicates_p1 demo_store (JArr ?cs))). collection r = JStr ''users''
         \<and> \<lparr>field = JStr ''ssn'',
             duplicates = sort_stage (retained demo_store (JStr ''users'') ''ssn'')\<rparr>
               \<in> set (results r)
         \<and> mset (sort_stage (retained demo_store (JStr ''users'') ''ssn''))
             = mset (retained demo_store (JStr ''users'') ''ssn'')
         \<and> sorted_wrt (\<lambda>a b. count b \<le> count a)
              (sort_stage (retained demo_store (JStr ''users'') ''ssn''))"
    by simp
  then have "\<exists>r\<in>set (fst (findDuplicates_p1 demo_store demo_plan)). collection r = JStr ''users''
         \<and> \<lparr>field = JStr ''ssn'', duplicates = [ssn_222, ssn_111]\<rparr> \<in> set (results r)"
    and "sorted_wrt (\<lambda>a b. count b \<le> count a) [ssn_222, ssn_111]"
    unfolding retained_demo_ssn demo_plan_def by blast+
  with c retained_demo_ssn(1) show ?thesis by blast
qed

text \<open>
  Claim C7. A scanned field whose query returns no group adds nothing to the
  collection's results: the loop goes on with the results unchanged and logs that the
  field has no duplicates. Hence no field result of the output, in either driver, has
  an empty list of duplicates, and no collection appears in the output with an empty
  list of results.
\<close>

theorem empty_results_omitted:
  "(js_string f = Inr fname \<and> aggregate st c fname = Inr [] \<longrightarrow>
      scanFields st c cname (f # fs) acc lg =
        scanFields st c cname fs acc (lg @ [Checking fname, NoDuplicates fname cname]))
   \<and> (\<forall>r\<in>set (fst (findDuplicates_p1 st configs)).
         results r \<noteq> [] \<and> (\<forall>fr\<in>set (results r). duplicates fr \<noteq> []))
   \<and> (\<forall>(k, rs)\<in>set (fst (findDuplicates_p0 st configs)).
         rs \<noteq> [] \<and> (\<forall>fr\<in>set rs. duplicates fr \<noteq> []))"
proof (intro conjI)
  show "js_string f = Inr fname \<and> aggregate st c fname = Inr [] \<longrightarrow>
      scanFields st c cname (f # fs) acc lg =
        scanFields st c cname fs acc (lg @ [Checking fname, NoDuplicates fname cname])"
    by simp
  show "\<forall>r\<in>set (fst (findDuplicates_p1 st configs)).
         results r \<noteq> [] \<and> (\<forall>fr\<in>set (results r). duplicates fr \<noteq> [])"
  proof (rule findDuplicates_p1_inv)
    fix config lg r
    assume pc: "processConfig_p1 st config = (lg, Inr (Some r))"
    show "results r \<noteq> [] \<and> (\<forall>fr\<in>set (results r). duplicates fr \<noteq> [])"
      using processConfig_p1_results[OF pc] by blast
  qed
  show "\<forall>(k, rs)\<in>set (fst (findDuplicates_p0 st configs)).
         rs \<noteq> [] \<and> (\<forall>fr\<in>set rs. duplicates fr \<noteq> [])"
  proof (rule findDuplicates_p0_inv)
    fix config lg c cname rs
    assume sc: "scanConfig st config = (lg, Inr (Some (c, cname, rs)))" and ne: "rs \<noteq> []"
    show "rs \<noteq> [] \<and> (\<forall>fr\<in>set rs. duplicates fr \<noteq> [])"
      using scanConfig_results[OF sc] ne by blast
  qed
qed

theorem empty_results_omitted_witness:
  "js_string (JStr ''email'') = Inr ''email''
   \<and> aggregate demo_store (JStr ''users'') ''email'' = Inr []
   \<and> scanFields demo_store (JStr ''users'') ''users'' [JStr ''email''] [] [] =
       ([Checking ''email'', NoDuplicates ''email'' ''users''], Inr [])
   \<and> fst (findDuplicates_p1 demo_store clean_then_dirty_plan) = [users_result]
   \<and> results users_result = [ssn_result]
   \<and> duplicates ssn_result \<noteq> []"
  using empty_results_omitted [of "JStr ''email''" "''email''" demo_store "JStr ''users''"
      "''users''" "[]" "[]" "[]" clean_then_dirty_plan]
  by (simp add: aggregate_demo findDuplicates_p1_clean_then_dirty users_result_def ssn_result_def)

section \<open>Failures during the scan\<close>

text \<open>
  Claim C1, as amended. When the scan reaches a well-formed target whose collection
  cannot be opened, or one of whose fields' grouping query fails, the exception leaves
  both loops and is caught by the single \<^verbatim>\<open>catch\<close> of \<^verbatim>\<open>findDuplicates\<close>: the function
  returns exactly what it returns for the targets before that one (the collection being
  scanned and every later target contribute nothing), and the last line of its log is
  the caught exception. This holds in both drivers.
\<close>

theorem query_failure_ends_scan:
  assumes "get_prop (Some config) ''collection'' = Inr (Some c)" and "truthy (Some c)"
    and "get_prop (Some config) ''fields'' = Inr (Some (JArr fs))"
    and "open_fails st c
         \<or> (\<exists>f\<in>set fs. \<exists>fname. js_string f = Inr fname \<and> aggregate_fails st c (CHR ''$'' # fname))"
  shows "fst (findDuplicates_p1 st (JArr (pre @ config # post))) = fst (findDuplicates_p1 st (JArr pre))
       \<and> (\<exists>e. last (snd (findDuplicates_p1 st (JArr (pre @ config # post)))) = QueryFailed e)
       \<and> fst (findDuplicates_p0 st (JArr (pre @ config # post))) = fst (findDuplicates_p0 st (JArr pre))
       \<and> (\<exists>e. last (snd (findDuplicates_p0 st (JArr (pre @ config # post)))) = QueryFailed e)"
proof -
  from scanConfig_raises[OF assms] obtain lg e where sc: "scanConfig st config = (lg, Inl e)"
    by blast
  from findDuplicates_p1_raise[OF processConfig_p1_raises[OF sc]] findDuplicates_p0_raise[OF sc]
  show ?thesis by blast
qed

theorem query_failure_ends_scan_witness:
  "aggregate_fails email_failing_store (JStr ''users'') ''$email''
   \<and> fst (findDuplicates_p1 email_failing_store rels_users_rels_plan) = [rels_result]
   \<and> fst (findDuplicates_p0 email_failing_store rels_users_rels_plan) =
       [(''sharan.rels.clientContact'', [client_result])]"
proof -
  have "open_fails email_failing_store (JStr ''users'')
      \<or> (\<exists>f\<in>set (map JStr [''ssn'', ''email'']). \<exists>fname. js_string f = Inr fname
            \<and> aggregate_fails email_failing_store (JStr ''users'') (CHR ''$'' # fname))"
    using email_query_fails by simp
  from query_failure_ends_scan [OF target_props(1) _ target_props(2) this,
      of "[rels_target]" "[rels_target]"] email_query_fails
  show ?thesis
    by (simp add: rels_users_rels_plan_def findDuplicates_email_failing)
qed

text \<open>
  Claim C1 as stated fails. In the sample store the query on the e-mail field of
  \<^verbatim>\<open>users\<close> finds no duplicates, and the scan returns the results of both collections.
  When that one query fails instead, the scan returns nothing: neither the other field
  of \<^verbatim>\<open>users\<close> nor the remaining collection is scanned.
\<close>

theorem failed_query_is_not_treated_as_no_duplicates:
  "aggregate_fails email_failing_store (JStr ''users'') ''$email''
   \<and> aggregate demo_store (JStr ''users'') ''email'' = Inr []
   \<and> fst (findDuplicates_p1 demo_store demo_plan) = [users_result, rels_result]
   \<and> fst (findDuplicates_p1 email_failing_store demo_plan) = []"
  using email_query_fails aggregate_demo(1) findDuplicates_p1_demo findDuplicates_email_failing(1)
  by blast

text \<open>
  Claim C5, as amended. When a relationship collection has duplicates and the lookup of
  its record in \<^verbatim>\<open>meta.rels\<close> fails, \<^verbatim>\<open>findDuplicates\<close> still returns, and the last
  line of its log is the caught exception; but the failure ends the scan: the function
  returns exactly what it returns for the targets before that collection. Only a lookup
  that answers with no record is treated as "not found": it is logged and the
  collection's result is built with both cardinalities absent.
\<close>

theorem lookup_failure_ends_scan:
  assumes "get_prop (Some config) ''collection'' = Inr (Some c)" and "truthy (Some c)"
    and "get_prop (Some config) ''fields'' = Inr (Some (JArr fs))"
    and "includes_rels c = Inr True" and "findOne_meta st c = Inl e"
    and "\<exists>f\<in>set fs. \<exists>fname dups. js_string f = Inr fname \<and> aggregate st c fname = Inr dups \<and> dups \<noteq> []"
  shows "fst (findDuplicates_p1 st (JArr (pre @ config # post))) = fst (findDuplicates_p1 st (JArr pre))
       \<and> (\<exists>e'. last (snd (findDuplicates_p1 st (JArr (pre @ config # post)))) = QueryFailed e')
       \<and> (\<forall>st' v cname rs. findOne_meta st' c = Inr v \<and> \<not> truthy v \<longrightarrow>
            enrich st' c cname rs =
              ([RelsLookup cname, MetaNotFound cname],
               Inr \<lparr>collection = c, results = rs, destCardinality = None, sourceCardinality = None\<rparr>))"
proof -
  from processConfig_p1_lookup_raises[OF assms] obtain lg e'
    where "processConfig_p1 st config = (lg, Inl e')" by blast
  from findDuplicates_p1_raise[OF this] assms(4) show ?thesis
    by (simp add: enrich_def)
qed

theorem lookup_failure_ends_scan_witness:
  "findOne_meta lookup_failing_store rels_name = Inl LookupError
   \<and> aggregate lookup_failing_store rels_name ''client'' = Inr (duplicates client_result)
   \<and> fst (findDuplicates_p1 lookup_failing_store users_rels_users_plan) = [users_result]"
proof -
  have v: "get_prop (Some rels_target) ''collection'' = Inr (Some rels_name)"
    "truthy (Some rels_name)"
    "get_prop (Some rels_target) ''fields'' = Inr (Some (JArr [JStr ''client'']))"
    "includes_rels rels_name = Inr True"
    by (simp_all add: rels_target_def target_def rels_name_def)
  have d: "\<exists>f\<in>set [JStr ''client'']. \<exists>fname dups. js_string f = Inr fname
       \<and> aggregate lookup_failing_store rels_name fname = Inr dups \<and> dups \<noteq> []"
    using aggregate_lookup_failing_client by simp
  from lookup_failure_ends_scan [OF v lookup_fails d,
      of "[target ''users'' [''email'', ''ssn'']]" "[target ''users'' [''email'', ''ssn'']]"]
    lookup_fails aggregate_lookup_failing_client(1)
  show ?thesis
    by (simp add: users_rels_users_plan_def findDuplicates_lookup_failing)
qed

text \<open>
  Claim C5 as stated fails. With no record in \<^verbatim>\<open>meta.rels\<close> the scan returns the
  relationship collection without cardinalities, and the collection after it. When the
  lookup fails instead, the scan returns nothing.
\<close>

theorem failed_lookup_is_not_treated_as_not_found:
  "findOne_meta lookup_failing_store rels_name = Inl LookupError
   \<and> findOne_meta no_meta_store rels_name = Inr (Some JNull)
   \<and> fst (findDuplicates_p1 no_meta_store rels_then_users_plan) = [rels_result_bare, users_result]
   \<and> fst (findDuplicates_p1 lookup_failing_store rels_then_users_plan) = []"
  using lookup_fails findDuplicates_lookup_failing
  by (simp add: no_meta_store_def)

text \<open>
  The guard of the loop. A plan element whose two properties can be read (any element
  other than \<^verbatim>\<open>null\<close>) and whose collection name is falsy or whose fields value is not
  an array is skipped: the loop logs it and goes on with the remaining targets, the
  results untouched, and \<^verbatim>\<open>findDuplicates\<close> returns what it returns for the plan
  without that element. This holds in both drivers.
\<close>

lemma malformed_target_skipped:
  assumes "get_prop (Some config) ''collection'' = Inr collectionName"
    and "get_prop (Some config) ''fields'' = Inr flds"
    and "\<not> truthy collectionName \<or> \<not> isArray flds"
  shows "scanLoop_p1 st (config # rest) acc lg = scanLoop_p1 st rest acc (lg @ [BadConfig config])
       \<and> scanLoop_p0 st (config # rest) acc0 lg = scanLoop_p0 st rest acc0 (lg @ [BadConfig config])
       \<and> fst (findDuplicates_p1 st (JArr (pre @ config # post))) = fst (findDuplicates_p1 st (JArr (pre @ post)))
       \<and> fst (findDuplicates_p0 st (JArr (pre @ config # post))) = fst (findDuplicates_p0 st (JArr (pre @ post)))"
proof (intro conjI)
  note sc = scanConfig_malformed[OF assms, of st]
  show s1: "scanLoop_p1 st (config # rest) acc lg = scanLoop_p1 st rest acc (lg @ [BadConfig config])"
    for rest acc lg
    by (simp add: processConfig_p1_def sc)
  show s0: "scanLoop_p0 st (config # rest) acc0 lg = scanLoop_p0 st rest acc0 (lg @ [BadConfig config])"
    for rest acc0 lg
    by (simp add: sc)
  have "fst (scanLoop_p1 st (pre @ config # post) [] []) = fst (scanLoop_p1 st (pre @ post) [] [])"
    unfolding scanLoop_p1_append[of st pre] s1
    by (auto split: prod.splits option.splits intro: scanLoop_p1_log)
  then show "fst (findDuplicates_p1 st (JArr (pre @ config # post))) = fst (findDuplicates_p1 st (JArr (pre @ post)))"
    by (simp add: fst_findDuplicates_p1)
  have "fst (scanLoop_p0 st (pre @ config # post) [] []) = fst (scanLoop_p0 st (pre @ post) [] [])"
    unfolding scanLoop_p0_append[of st pre] s0
    by (auto split: prod.splits option.splits intro: scanLoop_p0_log)
  then show "fst (findDuplicates_p0 st (JArr (pre @ config # post))) = fst (findDuplicates_p0 st (JArr (pre @ post)))"
    by (simp add: fst_findDuplicates_p0)
qed

lemma nameless_target_skipped:
  "get_prop (Some nameless_target) ''collection'' = Inr None
   \<and> \<not> truthy None
   \<and> fst (findDuplicates_p1 demo_store (JArr [nameless_target, target ''users'' [''email'', ''ssn'']]))
       = [users_result]
   \<and> fst (findDuplicates_p0 demo_store (JArr [nameless_target, target ''users'' [''email'', ''ssn'']]))
       = [(''users'', [ssn_result])]"
proof -
  have v: "get_prop (Some nameless_target) ''collection'' = Inr None"
    "get_prop (Some nameless_target) ''fields'' = Inr (Some (JArr [JStr ''email'']))"
    "\<not> truthy None \<or> \<not> isArray (Some (JArr [JStr ''email'']))"
    by (simp_all add: nameless_target_def)
  from malformed_target_skipped [OF v, of demo_store _ _ _ _ "[]" "[target ''users'' [''email'', ''ssn'']]"] v(1)
  show ?thesis
    by (simp add: findDuplicates_null_first)
qed

text \<open>
  Claim C9 at the plan \<^verbatim>\<open>[null, {"collection": "users", "fields": ["email", "ssn"]}]\<close>.
  The claim has the malformed element skipped with a logged warning and the target
  after it scanned, as happens for the element without a collection name. For
  \<^verbatim>\<open>null\<close> the destructuring, which stands one line before the guard, throws: in
  both drivers the \<^verbatim>\<open>catch\<close> written for query errors logs the TypeError, nothing is
  logged about an incorrect configuration, and \<^verbatim>\<open>users\<close> is not scanned, although
  scanned alone it has duplicates to report.
\<close>

theorem null_target_ends_scan:
  "findDuplicates_p1 demo_store (JArr [JNull, target ''users'' [''email'', ''ssn'']]) =
     ([], [QueryFailed TypeError])
   \<and> findDuplicates_p0 demo_store (JArr [JNull, target ''users'' [''email'', ''ssn'']]) =
     ([], [QueryFailed TypeError])
   \<and> fst (findDuplicates_p1 demo_store (JArr [nameless_target, target ''users'' [''email'', ''ssn'']]))
       = [users_result]
   \<and> fst (findDuplicates_p1 demo_store (JArr [target ''users'' [''email'', ''ssn'']])) = [users_result]"
  using findDuplicates_null_first nameless_target_skipped by blast

section \<open>The generator within the two runs\<close>

lemma path_literals:
  "inputFile = ''input/updateIndex.failure.json''"
  "outputFile = ''output/duplicates_json/duplicateKeys.json''"
  "configFile_p1 = ''output/duplicates_json/duplicateKeys.json''"
  "outputDir_p1 = ''output/duplicates_json''"
  "configFile_p0 = ''output/duplicateKeys.json''"
  "outputDir_p0 = ''output/duplicaties_json''"
  by (simp_all add: inputFile_def outputFile_def configFile_p1_def outputDir_p1_def
        configFile_p0_def outputDir_p0_def)

lemma generateConfigs_read_failure:
  "readJson fs inputFile = Inl e \<Longrightarrow> generateConfigs fs = (fs, [GenerationFailed e])"
  by (simp add: generateConfigs_def)

lemma writeReports_p1_named:
  "\<forall>r\<in>set rs. \<exists>s. js_string (collection r) = Inr s \<Longrightarrow>
   snd (snd (writeReports_p1 fs rs lg)) = None \<and> prefix lg (fst (snd (writeReports_p1 fs rs lg)))"
proof (induction rs arbitrary: fs lg)
  case Nil
  then show ?case by simp
next
  case (Cons r rs)
  from Cons.prems obtain s where s: "js_string (collection r) = Inr s" by auto
  from Cons.prems have rest: "\<forall>r\<in>set rs. \<exists>s. js_string (collection r) = Inr s" by simp
  show ?case
  proof (cases "writeJson fs (path_resolve [outputDir_p1, s @ ''_duplicates.json'']) (json_of_result r)")
    case (Inl e)
    with s Cons.IH[OF rest, of fs "lg @ [ReportWriteFailed s e]"] show ?thesis
      by (auto simp: Let_def simp del: path_resolve.simps dest: append_prefixD)
  next
    case (Inr fs')
    with s Cons.IH[OF rest, of fs' "lg @ [ReportWritten s (path_resolve [outputDir_p1, s @ ''_duplicates.json''])]"]
    show ?thesis
      by (auto simp: Let_def simp del: path_resolve.simps dest: append_prefixD)
  qed
qed

lemma main_p1_after_load:
  assumes g: "generateConfigs fs = (fs1, lg1)"
    and l: "loadConfigs_p1 fs1 configFile_p1 = Inr configs"
  shows "fst (main_p1 st fs)
           = (if client_fails st \<or> close_fails st \<or> mkdir_fails fs1 outputDir_p1 then 1 else 0)"
    and "\<not> client_fails st \<Longrightarrow>
         prefix (lg1 @ snd (findDuplicates_p1 st configs)) (snd (snd (main_p1 st fs)))"
proof -
  obtain res lg2 where fd: "findDuplicates_p1 st configs = (res, lg2)"
    by (cases "findDuplicates_p1 st configs")
  have named: "\<forall>r\<in>set res. \<exists>s. js_string (collection r) = Inr s"
    using findDuplicates_p1_inv[of st "\<lambda>r. \<exists>s. js_string (collection r) = Inr s" configs]
      processConfig_p1_name fd by auto
  let ?lg = "lg1 @ lg2 @ [SummaryHeading, Summary (JArr (map json_of_result res))]"
  obtain fs2 lg3 eo where wr: "writeReports_p1 fs1 res ?lg = (fs2, lg3, eo)"
    by (cases "writeReports_p1 fs1 res ?lg") auto
  from writeReports_p1_named[OF named, of fs1 ?lg] wr
  have eo: "eo = None" and pre: "prefix ?lg lg3" by simp_all
  from pre have pre': "prefix (lg1 @ lg2) lg3"
    by (metis append.assoc append_prefixD)
  show "fst (main_p1 st fs)
          = (if client_fails st \<or> close_fails st \<or> mkdir_fails fs1 outputDir_p1 then 1 else 0)"
    using g l fd wr eo by (simp add: main_p1_def call_findDuplicates_p1_def Let_def)
  show "prefix (lg1 @ snd (findDuplicates_p1 st configs)) (snd (snd (main_p1 st fs)))"
    if "\<not> client_fails st"
    using that g l fd wr eo pre' by (simp add: main_p1_def call_findDuplicates_p1_def Let_def)
qed

lemma stale_plan_reads:
  "readJson stale_plan_fs inputFile = Inl ReadError"
  "loadConfigs_p1 stale_plan_fs configFile_p1 = Inr (JArr [target ''users'' [''email'', ''ssn'']])"
  "mkdir_fails stale_plan_fs outputDir_p1 = False"
  by (simp_all add: stale_plan_fs_def healthy_disk_def readJson_def loadConfigs_p1_def path_literals)

lemma garbage_report_reads:
  "readJson garbage_report_fs inputFile = Inl ParseError"
  "loadConfigs_p1 garbage_report_fs configFile_p1 = Inl ReadError"
  by (simp_all add: garbage_report_fs_def healthy_disk_def readJson_def loadConfigs_p1_def path_literals)

lemma log_users_only:
  "snd (findDuplicates_p1 demo_store (JArr [target ''users'' [''email'', ''ssn'']]))
     = [Processing ''users'', Checking ''email'', NoDuplicates ''email'' ''users'',
        Checking ''ssn'', DuplicatesFound ''ssn'' ''users'']"
  by code_simp

lemma main_p1_stale_plan:
  "fst (main_p1 demo_store stale_plan_fs) = 0"
  "files (fst (snd (main_p1 demo_store stale_plan_fs))) ''output/duplicates_json/users_duplicates.json''
     = Some (Doc (json_of_result users_result))"
  by code_simp+

lemma generateConfigs_other_files:
  "p \<noteq> outputFile \<Longrightarrow> files (fst (generateConfigs fs)) p = files fs p"
  by (auto simp: generateConfigs_def writeJson_def split: sum.splits if_splits)

lemma generateConfigs_success:
  "readJson fs inputFile = Inr data \<Longrightarrow> newConfigs data = Inr cfgs \<Longrightarrow> \<not> write_fails fs outputFile
   \<Longrightarrow> generateConfigs fs
       = (fs\<lparr>files := (files fs)(outputFile \<mapsto> Doc (JArr cfgs))\<rparr>, [ConfigWritten outputFile])"
  by (simp add: generateConfigs_def writeJson_def)

lemma writeReports_p0_files:
  "files (fst (writeReports_p0 fs rs lg)) p \<noteq> files fs p \<Longrightarrow> \<exists>c. p = reportName_p0 c"
proof (induction rs arbitrary: fs lg)
  case Nil
  then show ?case by simp
next
  case (Cons a rs)
  obtain c frs where a: "a = (c, frs)" by (cases a)
  let ?content = "JObj [(''collection'', JStr c), (''results'', JArr (map json_of_field_result frs))]"
  show ?case
  proof (cases "write_fails fs (reportName_p0 c)")
    case True
    with Cons.prems a
    have "files (fst (writeReports_p0 fs rs (lg @ [ReportWriteFailed c WriteError]))) p \<noteq> files fs p"
      by (simp add: Let_def writeJson_def)
    then show ?thesis by (rule Cons.IH)
  next
    case False
    let ?fs' = "fs\<lparr>files := (files fs)(reportName_p0 c \<mapsto> Doc ?content)\<rparr>"
    from False Cons.prems a
    have *: "files (fst (writeReports_p0 ?fs' rs (lg @ [ReportWritten c (reportName_p0 c)]))) p
              \<noteq> files fs p"
      by (simp add: Let_def writeJson_def)
    show ?thesis
    proof (cases "p = reportName_p0 c")
      case True
      then show ?thesis by blast
    next
      case False
      with * have "files (fst (writeReports_p0 ?fs' rs (lg @ [ReportWritten c (reportName_p0 c)]))) p
              \<noteq> files ?fs' p" by simp
      then show ?thesis by (rule Cons.IH)
    qed
  qed
qed

lemma main_p0_files:
  assumes "files (fst (snd (main_p0 st fs))) p \<noteq> files fs p"
  shows "p = outputFile \<or> (\<exists>c. p = reportName_p0 c)"
proof (rule ccontr)
  assume n: "\<not> (p = outputFile \<or> (\<exists>c. p = reportName_p0 c))"
  obtain fs1 lg1 where g: "generateConfigs fs = (fs1, lg1)" by (cases "generateConfigs fs")
  from n g generateConfigs_other_files[of p fs] have f1: "files fs1 p = files fs p" by simp
  have "files (fst (snd (main_p0 st fs))) p = files fs1 p"
  proof (cases "loadConfigs_p0 fs1")
    case (Inl e)
    with g show ?thesis by (simp add: main_p0_def)
  next
    case (Inr configs)
    obtain res lg2 where fd: "findDuplicates_p0 st configs = (res, lg2)"
      by (cases "findDuplicates_p0 st configs")
    show ?thesis
    proof (cases "mkdir_fails fs1 outputDir_p0")
      case True
      with g Inr fd show ?thesis by (simp add: main_p0_def call_findDuplicates_p0_def Let_def)
    next
      case False
      from n writeReports_p0_files[of fs1 res _ p]
      have "files (fst (writeReports_p0 fs1 res lg)) p = files fs1 p" for lg by blast
      with g Inr fd False show ?thesis
        by (simp add: main_p0_def call_findDuplicates_p0_def Let_def split: prod.splits)
    qed
  qed
  with f1 assms show False by simp
qed

lemma loadConfigs_p0_after_generation:
  "loadConfigs_p0 (fst (generateConfigs fs)) = loadConfigs_p0 fs"
proof -
  have "configFile_p0 \<noteq> outputFile" by (simp add: path_literals)
  from generateConfigs_other_files[OF this] show ?thesis
    by (simp add: loadConfigs_p0_def readJson_def)
qed

lemma old_plan_reads:
  "readJson old_plan_fs inputFile = Inr users_report"
  "newConfigs users_report = Inr [configEntry ''users'' [''email'', ''ssn'']]"
  "\<not> write_fails old_plan_fs outputFile"
  "loadConfigs_p0 old_plan_fs = Inr (JArr [rels_target])"
  by code_simp+

lemma main_p0_old_plan:
  "files (fst (snd (main_p0 demo_store old_plan_fs)))
      ''output/duplicaties_json/sharan.rels.clientContact_duplicates.json''
     = Some (Doc (JObj [(''collection'', JStr ''sharan.rels.clientContact''),
                        (''results'', JArr [json_of_field_result client_result])]))"
  "files (fst (snd (main_p0 demo_store old_plan_fs)))
      ''output/duplicates_json/sharan.rels.clientContact_duplicates.json'' = None"
  "files (fst (snd (main_p0 demo_store old_plan_fs)))
      ''output/duplicaties_json/users_duplicates.json'' = None"
  by code_simp+

lemma map_filter_as_concat:
  "map f (filter P xs) = concat (map (\<lambda>x. if P x then [f x] else []) xs)"
  by (induction xs) auto

lemma collectConfigs_acc:
  "collectConfigs entries acc = Inr plan \<Longrightarrow>
   plan = acc @ [configEntry c fs.
                  (c, indexes) \<leftarrow> entries,
                  fs \<leftarrow> [[fieldName n. (n, d) \<leftarrow> own_entries indexes,
                                         errCode d = Inr (Some (JNum 11000))]],
                  fs \<noteq> []]"
proof (induction entries arbitrary: acc)
  case Nil
  then show ?case by simp
next
  case (Cons a entries)
  obtain c indexes where a: "a = (c, indexes)" by (cases a)
  from Cons.prems a obtain fs where fs: "collectFields (own_entries indexes) [] = Inr fs"
    by (auto split: sum.splits)
  from collectFields_acc[OF fs]
  have fs': "fs = [fieldName n. (n, d) \<leftarrow> own_entries indexes, errCode d = Inr (Some (JNum 11000))]"
    by (simp add: map_filter_as_concat split_def comp_def)
  from Cons.prems a fs
  have "collectConfigs entries (if fs \<noteq> [] then acc @ [configEntry c fs] else acc) = Inr plan"
    by simp
  from Cons.IH[OF this] a fs' show ?case by auto
qed

lemma collectConfigs_all_read:
  "collectConfigs entries acc = Inr plan \<Longrightarrow> (c, indexes) \<in> set entries \<Longrightarrow>
   \<exists>fs. collectFields (own_entries indexes) [] = Inr fs"
proof (induction entries arbitrary: acc)
  case Nil
  then show ?case by simp
next
  case (Cons a entries)
  obtain c' indexes' where a: "a = (c', indexes')" by (cases a)
  from Cons.prems a obtain fs where fs: "collectFields (own_entries indexes') [] = Inr fs"
    by (auto split: sum.splits)
  from Cons.prems a fs
  have "collectConfigs entries (if fs \<noteq> [] then acc @ [configEntry c' fs] else acc) = Inr plan"
    by simp
  from Cons.IH[OF this] Cons.prems(2) a fs show ?case by auto
qed

lemma newConfigs_samples:
  "newConfigs mixed_report = Inr [configEntry ''users'' [''email'', ''name'']]"
  "newConfigs zero_code_report = Inr [configEntry ''users'' [''x'']]"
  "newConfigs broken_report = Inl TypeError"
  by code_simp+

lemma report_fs_reads:
  "readJson (report_fs data) inputFile = Inr data"
  "\<not> write_fails (report_fs data) outputFile"
  by (simp_all add: report_fs_def healthy_disk_def readJson_def path_literals)

text \<open>
  Claim C3, as amended. Whenever generation completes, the scan plan holds, for the
  collections of the report in order, one target per collection that contributes at
  least one field, and its fields are, in order, the field names of exactly the index
  entries whose code reads \<open>11000\<close>; this plan is what the generator writes. For each
  entry the code reads \<open>11000\<close> if and only if \<^verbatim>\<open>err.code\<close> is \<open>11000\<close>, or
  \<^verbatim>\<open>err.code\<close> is falsy (absent, \<^verbatim>\<open>null\<close>, \<^verbatim>\<open>false\<close>, \<open>0\<close> or the empty string),
  \<^verbatim>\<open>err.errorResponse\<close> is truthy and \<^verbatim>\<open>err.errorResponse.code\<close> is \<open>11000\<close>. Every
  other entry contributes nothing.
\<close>

theorem plan_field_iff_code_11000:
  assumes "newConfigs data = Inr plan"
  shows "plan = [configEntry c fs.
                  (c, indexes) \<leftarrow> own_entries data,
                  fs \<leftarrow> [[fieldName n. (n, d) \<leftarrow> own_entries indexes,
                                         errCode d = Inr (Some (JNum 11000))]],
                  fs \<noteq> []]
     \<and> (\<forall>(c, indexes)\<in>set (own_entries data). \<forall>(n, d)\<in>set (own_entries indexes).
          \<exists>err code. get_prop (Some d) ''err'' = Inr err \<and> get_prop err ''code'' = Inr code
            \<and> (errCode d = Inr (Some (JNum 11000)) \<longleftrightarrow>
                  code = Some (JNum 11000)
                  \<or> \<not> truthy code
                    \<and> (\<exists>er. get_prop err ''errorResponse'' = Inr er \<and> truthy er
                             \<and> get_prop er ''code'' = Inr (Some (JNum 11000)))))
     \<and> (readJson fs inputFile = Inr data \<and> \<not> write_fails fs outputFile \<longrightarrow>
          files (fst (generateConfigs fs)) outputFile = Some (Doc (JArr plan)))"
proof (intro conjI ballI impI)
  from assms have cc: "collectConfigs (own_entries data) [] = Inr plan"
    by (simp add: newConfigs_def)
  show "plan = [configEntry c fs.
                  (c, indexes) \<leftarrow> own_entries data,
                  fs \<leftarrow> [[fieldName n. (n, d) \<leftarrow> own_entries indexes,
                                         errCode d = Inr (Some (JNum 11000))]],
                  fs \<noteq> []]"
    using collectConfigs_acc[OF cc] by simp
  show "files (fst (generateConfigs fs)) outputFile = Some (Doc (JArr plan))"
    if "readJson fs inputFile = Inr data \<and> \<not> write_fails fs outputFile"
    using that assms by (simp add: generateConfigs_success)
  fix x y assume x: "x \<in> set (own_entries data)"
  show "case x of (c, indexes) \<Rightarrow> \<forall>(n, d)\<in>set (own_entries indexes).
          \<exists>err code. get_prop (Some d) ''err'' = Inr err \<and> get_prop err ''code'' = Inr code
            \<and> (errCode d = Inr (Some (JNum 11000)) \<longleftrightarrow>
                  code = Some (JNum 11000)
                  \<or> \<not> truthy code
                    \<and> (\<exists>er. get_prop err ''errorResponse'' = Inr er \<and> truthy er
                             \<and> get_prop er ''code'' = Inr (Some (JNum 11000))))"
  proof -
    obtain c indexes where ci: "x = (c, indexes)" by (cases x)
    from collectConfigs_all_read[OF cc] x ci obtain fs
      where fs: "collectFields (own_entries indexes) [] = Inr fs" by blast
    have "\<exists>err code. get_prop (Some d) ''err'' = Inr err \<and> get_prop err ''code'' = Inr code
            \<and> (errCode d = Inr (Some (JNum 11000)) \<longleftrightarrow>
                  code = Some (JNum 11000)
                  \<or> \<not> truthy code
                    \<and> (\<exists>er. get_prop err ''errorResponse'' = Inr er \<and> truthy er
                             \<and> get_prop er ''code'' = Inr (Some (JNum 11000))))"
      if "(n, d) \<in> set (own_entries indexes)" for n d
    proof -
      from collectFields_all_read[OF fs that] obtain cd where cd: "errCode d = Inr cd" by blast
      from errCode_read[OF cd] cd show ?thesis by simp
    qed
    with ci show ?thesis by auto
  qed
qed

theorem plan_field_iff_code_11000_witness:
  "newConfigs mixed_report = Inr [configEntry ''users'' [''email'', ''name'']]
   \<and> [configEntry ''users'' [''email'', ''name'']]
       = [configEntry c fs.
            (c, indexes) \<leftarrow> own_entries mixed_report,
            fs \<leftarrow> [[fieldName n. (n, d) \<leftarrow> own_entries indexes,
                                   errCode d = Inr (Some (JNum 11000))]],
            fs \<noteq> []]
   \<and> files (fst (generateConfigs (report_fs mixed_report))) outputFile
       = Some (Doc (JArr [configEntry ''users'' [''email'', ''name'']]))"
  using plan_field_iff_code_11000 [OF newConfigs_samples(1), of "report_fs mixed_report"]
    newConfigs_samples(1) report_fs_reads
  by blast

text \<open>
  Claim C3 as stated fails twice. The primary code of the zero-code entry is present
  and is \<open>0\<close>, not \<open>11000\<close>, yet the entry contributes its field to the plan, because
  \<^verbatim>\<open>||\<close> falls through on every falsy value and not only on a missing one. And an
  entry whose code is \<open>11000\<close> contributes nothing when another entry of the report
  has no error record: reading that one throws, generation stops, and no plan is
  written.
\<close>

theorem falsy_code_and_broken_entry:
  "get_prop (Some zero_code_entry) ''err'' = Inr (Some zero_code_err)
   \<and> get_prop (Some zero_code_err) ''code'' = Inr (Some (JNum 0))
   \<and> newConfigs zero_code_report = Inr [configEntry ''users'' [''x'']]
   \<and> errCode (JObj [(''err'', JObj [(''code'', JNum 11000)])]) = Inr (Some (JNum 11000))
   \<and> newConfigs broken_report = Inl TypeError
   \<and> generateConfigs (report_fs broken_report)
       = (report_fs broken_report, [GenerationFailed TypeError])"
  using newConfigs_samples report_fs_reads(1)[of broken_report]
  by (simp add: zero_code_entry_def zero_code_err_def errCode_def generateConfigs_def)

text \<open>
  Claim C2, as amended. When the failure report is missing or is not valid JSON, the
  generator logs the failure, writes nothing and returns normally; that alone does not
  abort the run. The second driver goes on to load the plan file. When that file
  cannot be read or parsed, the run ends there with exit status 1. When an earlier run
  left a plan there, \<^verbatim>\<open>findDuplicates\<close> is called on that plan, and the run ends with
  exit status 0 unless the database client cannot be created or closed or the output
  directory cannot be created; once the client is created, the log of the scan of the
  old plan follows the generator's log line.
\<close>

theorem generation_failure_does_not_abort:
  assumes "readJson fs inputFile = Inl e"
  shows "generateConfigs fs = (fs, [GenerationFailed e])
     \<and> (\<forall>e'. loadConfigs_p1 fs configFile_p1 = Inl e' \<longrightarrow>
           main_p1 st fs = (1, fs, [GenerationFailed e, LoadFailed configFile_p1 e']))
     \<and> (\<forall>configs. loadConfigs_p1 fs configFile_p1 = Inr configs \<longrightarrow>
           fst (main_p1 st fs)
             = (if client_fails st \<or> close_fails st \<or> mkdir_fails fs outputDir_p1 then 1 else 0)
           \<and> (\<not> client_fails st \<longrightarrow>
                prefix (GenerationFailed e # snd (findDuplicates_p1 st configs))
                  (snd (snd (main_p1 st fs)))))"
proof (intro conjI allI impI)
  note g = generateConfigs_read_failure[OF assms]
  show "generateConfigs fs = (fs, [GenerationFailed e])" by (rule g)
  show "main_p1 st fs = (1, fs, [GenerationFailed e, LoadFailed configFile_p1 e'])"
    if "loadConfigs_p1 fs configFile_p1 = Inl e'" for e'
    using that g by (simp add: main_p1_def)
  show "fst (main_p1 st fs)
          = (if client_fails st \<or> close_fails st \<or> mkdir_fails fs outputDir_p1 then 1 else 0)"
    if "loadConfigs_p1 fs configFile_p1 = Inr configs" for configs
    using main_p1_after_load(1)[OF g that] .
  show "prefix (GenerationFailed e # snd (findDuplicates_p1 st configs)) (snd (snd (main_p1 st fs)))"
    if "loadConfigs_p1 fs configFile_p1 = Inr configs" and "\<not> client_fails st" for configs
    using main_p1_after_load(2)[OF g that] by simp
qed

theorem generation_failure_does_not_abort_witness:
  "readJson garbage_report_fs inputFile = Inl ParseError
   \<and> main_p1 demo_store garbage_report_fs
       = (1, garbage_report_fs, [GenerationFailed ParseError, LoadFailed configFile_p1 ReadError])
   \<and> readJson stale_plan_fs inputFile = Inl ReadError
   \<and> loadConfigs_p1 stale_plan_fs configFile_p1 = Inr (JArr [target ''users'' [''email'', ''ssn'']])
   \<and> generateConfigs stale_plan_fs = (stale_plan_fs, [GenerationFailed ReadError])
   \<and> fst (main_p1 demo_store stale_plan_fs) = 0
   \<and> prefix [GenerationFailed ReadError, Processing ''users'', Checking ''email'',
              NoDuplicates ''email'' ''users'', Checking ''ssn'', DuplicatesFound ''ssn'' ''users'']
        (snd (snd (main_p1 demo_store stale_plan_fs)))"
proof -
  have c: "\<not> client_fails demo_store" "\<not> close_fails demo_store"
    by (simp_all add: demo_store_def)
  from generation_failure_does_not_abort [OF garbage_report_reads(1), of demo_store]
    garbage_report_reads
  have a: "main_p1 demo_store garbage_report_fs
       = (1, garbage_report_fs, [GenerationFailed ParseError, LoadFailed configFile_p1 ReadError])"
    by simp
  from generation_failure_does_not_abort [OF stale_plan_reads(1), of demo_store]
    stale_plan_reads c log_users_only
  have b: "generateConfigs stale_plan_fs = (stale_plan_fs, [GenerationFailed ReadError])
     \<and> fst (main_p1 demo_store stale_plan_fs) = 0
     \<and> prefix [GenerationFailed ReadError, Processing ''users'', Checking ''email'',
              NoDuplicates ''email'' ''users'', Checking ''ssn'', DuplicatesFound ''ssn'' ''users'']
        (snd (snd (main_p1 demo_store stale_plan_fs)))"
    by simp
  from a b garbage_report_reads(1) stale_plan_reads(1,2) show ?thesis by blast
qed

text \<open>
  Claim C2 as stated fails: with no failure report on disk and a plan left by an
  earlier run, the generator fails, yet the run does not abort; it ends with exit
  status 0 and has written the report for \<^verbatim>\<open>users\<close>.
\<close>

theorem run_continues_on_stale_plan:
  "readJson stale_plan_fs inputFile = Inl ReadError
   \<and> generateConfigs stale_plan_fs = (stale_plan_fs, [GenerationFailed ReadError])
   \<and> fst (main_p1 demo_store stale_plan_fs) = 0
   \<and> files (fst (snd (main_p1 demo_store stale_plan_fs)))
        ''output/duplicates_json/users_duplicates.json''
       = Some (Doc (json_of_result users_result))"
  using stale_plan_reads(1) generateConfigs_read_failure[OF stale_plan_reads(1)] main_p1_stale_plan
  by simp


text \<open>
  Claim C10. The generator writes the plan to
  \<^verbatim>\<open>output/duplicates_json/duplicateKeys.json\<close> whenever it succeeds, and touches no other
  file. The second driver loads that path. The first driver loads
  \<^verbatim>\<open>output/duplicateKeys.json\<close>, a different path, so what it loads after the generator
  has run is what was there before; and every file its run changes, other than the
  generator's plan, is a report under \<^verbatim>\<open>output/duplicaties_json\<close>, not under the
  \<^verbatim>\<open>output/duplicates_json\<close> of the second driver.
\<close>

theorem first_driver_paths_inconsistent:
  "outputFile = ''output/duplicates_json/duplicateKeys.json''
   \<and> (readJson fs inputFile = Inr data \<and> newConfigs data = Inr cfgs \<and> \<not> write_fails fs outputFile
        \<longrightarrow> files (fst (generateConfigs fs)) outputFile = Some (Doc (JArr cfgs)))
   \<and> (\<forall>p. p \<noteq> outputFile \<longrightarrow> files (fst (generateConfigs fs)) p = files fs p)
   \<and> configFile_p1 = outputFile
   \<and> configFile_p0 = ''output/duplicateKeys.json'' \<and> configFile_p0 \<noteq> outputFile
   \<and> loadConfigs_p0 (fst (generateConfigs fs)) = loadConfigs_p0 fs
   \<and> outputDir_p1 = ''output/duplicates_json''
   \<and> outputDir_p0 = ''output/duplicaties_json''
   \<and> (\<forall>p. files (fst (snd (main_p0 st fs))) p \<noteq> files fs p \<longrightarrow>
          p = outputFile \<or> (\<exists>c. p = ''output/duplicaties_json/'' @ c @ ''_duplicates.json''))"
proof (intro conjI allI impI)
  show "files (fst (generateConfigs fs)) outputFile = Some (Doc (JArr cfgs))"
    if "readJson fs inputFile = Inr data \<and> newConfigs data = Inr cfgs \<and> \<not> write_fails fs outputFile"
    using that by (simp add: generateConfigs_success)
  show "files (fst (generateConfigs fs)) p = files fs p" if "p \<noteq> outputFile" for p
    using that by (rule generateConfigs_other_files)
  show "loadConfigs_p0 (fst (generateConfigs fs)) = loadConfigs_p0 fs"
    by (rule loadConfigs_p0_after_generation)
  show "p = outputFile \<or> (\<exists>c. p = ''output/duplicaties_json/'' @ c @ ''_duplicates.json'')"
    if "files (fst (snd (main_p0 st fs))) p \<noteq> files fs p" for p
    using main_p0_files[OF that] by (simp add: reportName_p0_def path_literals)
qed (simp_all add: path_literals)

theorem first_driver_paths_inconsistent_witness:
  "files (fst (generateConfigs old_plan_fs)) outputFile
     = Some (Doc (JArr [configEntry ''users'' [''email'', ''ssn'']]))
   \<and> loadConfigs_p0 (fst (generateConfigs old_plan_fs)) = Inr (JArr [rels_target])
   \<and> files (fst (snd (main_p0 demo_store old_plan_fs)))
        ''output/duplicaties_json/sharan.rels.clientContact_duplicates.json''
       = Some (Doc (JObj [(''collection'', JStr ''sharan.rels.clientContact''),
                          (''results'', JArr [json_of_field_result client_result])]))
   \<and> files (fst (snd (main_p0 demo_store old_plan_fs)))
        ''output/duplicaties_json/users_duplicates.json'' = None"
  using first_driver_paths_inconsistent [of old_plan_fs users_report
      "[configEntry ''users'' [''email'', ''ssn'']]" demo_store]
    old_plan_reads main_p0_old_plan
  by simp

end
